theory Spec2Isabelle
  imports Complex_Main "HOL-Library.Sublist" "HOL-Library.AList"
begin

section \<open>Python and numpy values\<close>

text \<open>
  The module under study is \<^verbatim>\<open>pisa/oscillations/OscillationServiceBase.py\<close>.
  Exceptions are values of type \<open>error\<close>; a function that may raise returns
  \<open>error + 'a\<close> with \<open>Inl\<close> for the exception.
\<close>

datatype error =
    IndexError string
  | ValueError string
  | KeyError string
  | AttributeError string
  | TypeError string
  | NotImplementedError string

text \<open>Decimal rendering of integers, as \<^verbatim>\<open>str\<close> and \<^verbatim>\<open>%i\<close> produce it.\<close>

fun str_nat :: "nat \<Rightarrow> string" where
  "str_nat n =
     (if n < 10 then [''0123456789'' ! n]
      else str_nat (n div 10) @ [''0123456789'' ! (n mod 10)])"

declare str_nat.simps [simp del]

definition str_int :: "int \<Rightarrow> string" where
  "str_int i = (if i < 0 then ''-'' @ str_nat (nat (- i)) else str_nat (nat i))"

text \<open>
  \<^verbatim>\<open>str\<close> of a shape tuple: \<^verbatim>\<open>()\<close>, \<^verbatim>\<open>(3,)\<close>, \<^verbatim>\<open>(2, 3)\<close>.
\<close>

fun join_comma :: "string list \<Rightarrow> string" where
  "join_comma [] = []"
| "join_comma [s] = s"
| "join_comma (s # t # ss) = s @ '', '' @ join_comma (t # ss)"

definition str_shape :: "nat list \<Rightarrow> string" where
  "str_shape sh =
     (case sh of
        [] \<Rightarrow> ''()''
      | [n] \<Rightarrow> ''('' @ str_nat n @ '',)''
      | _ \<Rightarrow> ''('' @ join_comma (map str_nat sh) @ '')'')"

text \<open>
  A numpy array is its shape together with its elements in row-major order.  The
  elements are modelled as real numbers: rounding of the machine floats is not part of
  the model.  A one-dimensional array is represented by the list of its elements; its
  shape is \<open>[length xs]\<close>.
\<close>

record ndarray =
  shape :: "nat list"
  data :: "real list"

definition zeros :: "nat list \<Rightarrow> ndarray" where
  "zeros sh = \<lparr>shape = sh, data = replicate (prod_list sh) 0\<rparr>"

text \<open>
  Python indexing of a one-dimensional array: a negative index counts from the end, an
  index out of range raises \<^verbatim>\<open>IndexError\<close>.
\<close>

definition getitem :: "real list \<Rightarrow> int \<Rightarrow> error + real" where
  "getitem xs i =
     (if 0 \<le> i \<and> i < int (length xs) then Inr (xs ! nat i)
      else if i < 0 \<and> - int (length xs) \<le> i then Inr (xs ! nat (int (length xs) + i))
      else Inl (IndexError (''index '' @ str_int i @ '' is out of bounds for axis 0 with size ''
                             @ str_nat (length xs))))"

text \<open>
  \<^verbatim>\<open>np.linspace(start, stop, num)\<close>: \<open>num\<close> evenly spaced samples with both
  end points included; a negative \<open>num\<close> raises \<^verbatim>\<open>ValueError\<close>, \<open>num = 1\<close>
  gives \<open>[start]\<close>.
\<close>

definition linspace :: "real \<Rightarrow> real \<Rightarrow> int \<Rightarrow> error + real list" where
  "linspace start stop num =
     (if num < 0 then
        Inl (ValueError (''Number of samples, '' @ str_int num @ '', must be non-negative.''))
      else if num = 1 then Inr [start]
      else Inr (map (\<lambda>i. start + real i * ((stop - start) / real_of_int (num - 1)))
                  [0..<nat num]))"

text \<open>\<^verbatim>\<open>np.log10\<close> and \<^verbatim>\<open>np.logspace(start, stop, num) = 10 ** linspace(start, stop, num)\<close>.\<close>

definition log10 :: "real \<Rightarrow> real" where
  "log10 x = log 10 x"

definition logspace :: "real \<Rightarrow> real \<Rightarrow> int \<Rightarrow> error + real list" where
  "logspace start stop num =
     (case linspace start stop num of
        Inl e \<Rightarrow> Inl e
      | Inr ys \<Rightarrow> Inr (map (\<lambda>y. 10 powr y) ys))"

text \<open>The substring test \<^verbatim>\<open>sub in s\<close> on strings.\<close>

fun str_contains :: "string \<Rightarrow> string \<Rightarrow> bool" where
  "str_contains sub [] = (sub = [])"
| "str_contains sub (c # cs) = (prefix sub (c # cs) \<or> str_contains sub cs)"

section \<open>The helpers imported from \<^verbatim>\<open>pisa.utils.utils\<close>\<close>

text \<open>
  \<^verbatim>\<open>OscillationServiceBase.py\<close> imports \<^verbatim>\<open>subbinning\<close>, \<^verbatim>\<open>get_smoothed_map\<close>,
  \<^verbatim>\<open>integer_rebin_map\<close>, \<^verbatim>\<open>get_bin_centers\<close>, \<^verbatim>\<open>is_coarser_binning\<close>,
  \<^verbatim>\<open>is_linear\<close> and \<^verbatim>\<open>is_logarithmic\<close> from a module whose source is not part of
  the files under study.  The functions of this module take them as a parameter: a record
  of pure functions.  The rebinning information returned by \<^verbatim>\<open>subbinning\<close> is a list
  with one (factor, offset) pair per axis, or \<^verbatim>\<open>None\<close>.
\<close>

type_synonym rebin_info = "(nat \<times> nat) list"

record utils =
  is_coarser_binning :: "real list \<Rightarrow> real list \<Rightarrow> bool"
  is_linear :: "real list \<Rightarrow> bool"
  is_logarithmic :: "real list \<Rightarrow> bool"
  get_bin_centers :: "real list \<Rightarrow> real list"
  subbinning :: "real list list \<Rightarrow> real list list \<Rightarrow> rebin_info option"
  integer_rebin_map :: "ndarray \<Rightarrow> rebin_info \<Rightarrow> ndarray"
  get_smoothed_map ::
    "ndarray \<Rightarrow> real list \<Rightarrow> real list \<Rightarrow> real list \<Rightarrow> real list \<Rightarrow> ndarray"

section \<open>\<^verbatim>\<open>check_oversampling\<close>\<close>

text \<open>
  Calls of \<^verbatim>\<open>logging\<close> are collected in a list of records: the level, the format
  string and the arguments substituted into it.
\<close>

datatype log_level = DEBUG | INFO | WARNING

type_synonym log_record = "log_level \<times> string \<times> int list"

text \<open>
  The loop of the irregular branch: \<^verbatim>\<open>range(oversample-1)\<close> iterations, each
  appending the bin centers of the current grid and sorting.
\<close>

fun insert_centers :: "utils \<Rightarrow> nat \<Rightarrow> real list \<Rightarrow> real list" where
  "insert_centers u 0 fine_bins = fine_bins"
| "insert_centers u (Suc n) fine_bins =
     insert_centers u n (sort (fine_bins @ get_bin_centers u fine_bins))"

definition check_oversampling ::
  "utils \<Rightarrow> real list option \<Rightarrow> real list \<Rightarrow> int \<Rightarrow> log_record list \<times> (error + real list)"
where
  "check_oversampling u fine_bins coarse_bins oversample =
     (case fine_bins of
        Some fb \<Rightarrow>
          if is_coarser_binning u coarse_bins fb then
            ([(INFO, ''Using requested binning for oversampling.'', [])], Inr fb)
          else
            ([(WARNING, ''Requested oversampled binning is coarser than output binning. Will use output binning.'', [])],
             Inr coarse_bins)
      | None \<Rightarrow>
          if is_linear u coarse_bins then
            ([(INFO, ''Oversampling linear output binning by factor %i.'', [oversample])],
             case getitem coarse_bins 0 of
               Inl e \<Rightarrow> Inl e
             | Inr lo \<Rightarrow>
                 (case getitem coarse_bins (- 1) of
                    Inl e \<Rightarrow> Inl e
                  | Inr hi \<Rightarrow> linspace lo hi (oversample * int (length coarse_bins) - 1)))
          else if is_logarithmic u coarse_bins then
            ([(INFO, ''Oversampling logarithmic output binning by factor %i.'', [oversample])],
             case getitem coarse_bins 0 of
               Inl e \<Rightarrow> Inl e
             | Inr lo \<Rightarrow>
                 (case getitem coarse_bins (- 1) of
                    Inl e \<Rightarrow> Inl e
                  | Inr hi \<Rightarrow>
                      logspace (log10 lo) (log10 hi) (oversample * int (length coarse_bins) - 1)))
          else
            ([(WARNING, ''Irregular binning detected! Evenly oversampling by factor %i'', [oversample])],
             Inr (insert_centers u (nat (oversample - 1)) coarse_bins)))"

section \<open>Helpers modelled from the specification\<close>

text \<open>
  Concrete helper functions, used where a statement needs the helpers to compute.  Each
  follows the words of the specification; the numeric tolerance, which the specification
  leaves open, is a parameter.
\<close>

definition diffs :: "real list \<Rightarrow> real list" where
  "diffs edges = map (\<lambda>(a, b). b - a) (zip edges (tl edges))"

definition ratios :: "real list \<Rightarrow> real list" where
  "ratios edges = map (\<lambda>(a, b). b / a) (zip edges (tl edges))"

definition near_equal :: "real \<Rightarrow> real list \<Rightarrow> bool" where
  "near_equal tol xs = list_all (\<lambda>(x, y). \<bar>y - x\<bar> \<le> tol) (zip xs (tl xs))"

text \<open>
  Modelled from the spec: \<^verbatim>\<open>is_linear\<close> of \<^verbatim>\<open>pisa.utils.utils\<close> is missing.  The
  specification: ``classify spacing by comparing consecutive differences (linear) or
  consecutive ratios (logarithmic) for near-equality within a numeric tolerance''.
\<close>

definition spec_is_linear :: "real \<Rightarrow> real list \<Rightarrow> bool" where
  "spec_is_linear tol edges = near_equal tol (diffs edges)"

text \<open>
  Modelled from the spec: \<^verbatim>\<open>is_logarithmic\<close> of \<^verbatim>\<open>pisa.utils.utils\<close> is missing (same
  sentence of the specification).  A ratio is formed only where every edge is nonzero.
\<close>

definition spec_is_logarithmic :: "real \<Rightarrow> real list \<Rightarrow> bool" where
  "spec_is_logarithmic tol edges =
     (list_all (\<lambda>a. a \<noteq> 0) edges \<and> near_equal tol (ratios edges))"

text \<open>
  Modelled from the spec: \<^verbatim>\<open>get_bin_centers\<close> of \<^verbatim>\<open>pisa.utils.utils\<close> is missing.  The
  specification: centers are a ``derived sequence, length N, computed from Edges (geometric
  or arithmetic mean depending on linear/log nature of the axis)''.
\<close>

definition spec_get_bin_centers :: "real \<Rightarrow> real list \<Rightarrow> real list" where
  "spec_get_bin_centers tol edges =
     (if spec_is_logarithmic tol edges
      then map (\<lambda>(a, b). sqrt (a * b)) (zip edges (tl edges))
      else map (\<lambda>(a, b). (a + b) / 2) (zip edges (tl edges)))"

text \<open>
  Modelled from the spec: \<^verbatim>\<open>is_coarser_binning\<close> of \<^verbatim>\<open>pisa.utils.utils\<close> is missing.
  The specification: it ``is true iff \<^verbatim>\<open>len(fine)-1\<close> is an integer multiple \<open>k\<close> of
  \<^verbatim>\<open>len(coarse)-1\<close> for some \<open>k \<ge> 1\<close> and every coarse edge appears exactly in the fine
  edge sequence at the expected stride''.
\<close>

definition spec_is_coarser_binning :: "real list \<Rightarrow> real list \<Rightarrow> bool" where
  "spec_is_coarser_binning coarse fine =
     (coarse \<noteq> [] \<and>
      list_ex (\<lambda>k. length fine - 1 = k * (length coarse - 1) \<and>
                   list_all (\<lambda>i. fine ! (i * k) = coarse ! i) [0..<length coarse])
        [1..<Suc (length fine)])"

text \<open>
  Modelled from the spec: \<^verbatim>\<open>subbinning\<close> of \<^verbatim>\<open>pisa.utils.utils\<close> is missing.  The
  specification: it ``returns, per axis, the integer factor and offset mapping needed to
  aggregate fine bins into coarse bins when \<^verbatim>\<open>is_coarser_binning\<close> holds; returns nothing
  (signal to fall back to interpolation) otherwise''.  With the edges aligned from the
  first one, the offset is 0.
\<close>

definition spec_subbinning :: "real list list \<Rightarrow> real list list \<Rightarrow> rebin_info option" where
  "spec_subbinning coarse_grid fine_grid =
     (if length coarse_grid = length fine_grid \<and>
         list_all (\<lambda>(c, f). spec_is_coarser_binning c f) (zip coarse_grid fine_grid)
      then Some (map (\<lambda>(c, f). (if length c \<le> 1 then 1 else (length f - 1) div (length c - 1), 0))
                   (zip coarse_grid fine_grid))
      else None)"

text \<open>The cell \<open>(i, j)\<close> of a two-dimensional array stored in row-major order.\<close>

definition cell :: "ndarray \<Rightarrow> nat \<Rightarrow> nat \<Rightarrow> real" where
  "cell a i j = data a ! (i * (shape a ! 1) + j)"

text \<open>
  Modelled from the spec: \<^verbatim>\<open>integer_rebin_map\<close> of \<^verbatim>\<open>pisa.utils.utils\<close> is missing.
  The specification: ``aggregate (sum or appropriately normalize) groups of adjacent fine
  cells into each coarse cell using pure index arithmetic'', such that a fine table that
  repeats each coarse cell over its sub-cells is mapped back to the coarse table: the
  aggregate is the mean of the block.  Defined on two-dimensional maps with one (factor,
  offset) pair per axis; any other argument is returned as it is.
\<close>

definition spec_integer_rebin_map :: "ndarray \<Rightarrow> rebin_info \<Rightarrow> ndarray" where
  "spec_integer_rebin_map m info =
     (case (shape m, info) of
        ([n_e, n_cz], [(k_e, o_e), (k_cz, o_cz)]) \<Rightarrow>
          (if k_e = 0 \<or> k_cz = 0 then m
           else
             \<lparr>shape = [(n_e - o_e) div k_e, (n_cz - o_cz) div k_cz],
              data =
                concat (map (\<lambda>i. map (\<lambda>j.
                    (\<Sum>a\<leftarrow>[0..<k_e]. \<Sum>b\<leftarrow>[0..<k_cz].
                        cell m (o_e + i * k_e + a) (o_cz + j * k_cz + b))
                      / real (k_e * k_cz))
                  [0..<(n_cz - o_cz) div k_cz])
                  [0..<(n_e - o_e) div k_e])\<rparr>)
      | _ \<Rightarrow> m)"

text \<open>
  The helper record built from these definitions.  The specification does not determine
  the interpolation of \<^verbatim>\<open>get_smoothed_map\<close>; it stays a parameter.
\<close>

definition spec_utils ::
  "real \<Rightarrow> (ndarray \<Rightarrow> real list \<Rightarrow> real list \<Rightarrow> real list \<Rightarrow> real list \<Rightarrow> ndarray) \<Rightarrow> utils"
where
  "spec_utils tol smooth =
     \<lparr>is_coarser_binning = spec_is_coarser_binning,
      is_linear = spec_is_linear tol,
      is_logarithmic = spec_is_logarithmic tol,
      get_bin_centers = spec_get_bin_centers tol,
      subbinning = spec_subbinning,
      integer_rebin_map = spec_integer_rebin_map,
      get_smoothed_map = smooth\<rparr>"

text \<open>
  A concrete instance for examples: tolerance \<open>10\<^sup>-\<^sup>5\<close>, and as interpolation the map
  that gives every coarse cell the value of the fine cell \<open>(0, 0)\<close>.
\<close>

definition example_smooth ::
  "ndarray \<Rightarrow> real list \<Rightarrow> real list \<Rightarrow> real list \<Rightarrow> real list \<Rightarrow> ndarray" where
  "example_smooth m fine_e fine_cz coarse_e coarse_cz =
     \<lparr>shape = [length coarse_e - 1, length coarse_cz - 1],
      data = replicate ((length coarse_e - 1) * (length coarse_cz - 1)) (cell m 0 0)\<rparr>"

definition example_utils :: utils where
  "example_utils = spec_utils (1 / 100000) example_smooth"

section \<open>The class \<^verbatim>\<open>OscillationServiceBase\<close>\<close>

text \<open>
  A Python dictionary with string keys is an association list; \<^verbatim>\<open>d[k] = v\<close> replaces
  the value of an existing key and appends a new key otherwise, \<^verbatim>\<open>d[k]\<close> raises
  \<^verbatim>\<open>KeyError\<close> for a missing key.  An entry of a probability table is either a
  bin-edge array or a dictionary from destination flavor to a two-dimensional map.  The
  methods of the class log messages that do not influence what they return; the model of
  the methods leaves these messages out.
\<close>

datatype entry = Edges "real list" | ToMaps "(string \<times> ndarray) list"

type_synonym table = "(string \<times> entry) list"

text \<open>
  The physics hook \<^verbatim>\<open>fill_osc_prob(osc_prob_dict, ecen, czcen, **kwargs)\<close> of a derived
  class fills the table it is given in place; the model returns the filled table.  The
  keyword arguments it receives have the abstract type \<open>'p\<close>.
\<close>

type_synonym 'p hook = "table \<Rightarrow> real list \<Rightarrow> real list \<Rightarrow> 'p \<Rightarrow> error + table"

text \<open>
  An instance: the name of its class, the two axes stored by the constructor, and the
  \<^verbatim>\<open>fill_osc_prob\<close> of its class if the class overrides the method of the base class.
\<close>

record 'p service =
  cls_name :: string
  ebins :: "real list"
  czbins :: "real list"
  fill_override :: "'p hook option"

text \<open>
  The keyword arguments of \<^verbatim>\<open>get_osc_prob_maps\<close>: \<^verbatim>\<open>get_osc_probLT_dict\<close> takes
  \<^verbatim>\<open>fine_ebins\<close>, \<^verbatim>\<open>fine_czbins\<close> and \<^verbatim>\<open>oversample\<close> from them (\<open>None\<close>: the
  argument is not given), the others are passed on to the hook.
\<close>

record 'p kwargs =
  kw_fine_ebins :: "real list option"
  kw_fine_czbins :: "real list option"
  kw_oversample :: "int option"
  kw_rest :: 'p

text \<open>
  \<^verbatim>\<open>__init__\<close>: the arguments after \<^verbatim>\<open>np.array\<close>, the energy axis checked first.
\<close>

definition init :: "string \<Rightarrow> 'p hook option \<Rightarrow> ndarray \<Rightarrow> ndarray \<Rightarrow> error + 'p service" where
  "init cls hook ebins_arg czbins_arg =
     (if length (shape ebins_arg) \<noteq> 1 then
        Inl (IndexError (''Axes must be 1d! '' @ str_shape (shape ebins_arg)))
      else if length (shape czbins_arg) \<noteq> 1 then
        Inl (IndexError (''Axes must be 1d! '' @ str_shape (shape czbins_arg)))
      else
        Inr \<lparr>cls_name = cls, ebins = data ebins_arg, czbins = data czbins_arg,
             fill_override = hook\<rparr>)"

text \<open>\<^verbatim>\<open>fill_osc_prob\<close>, dispatched on the class of the instance.\<close>

definition fill_osc_prob :: "'p service \<Rightarrow> 'p hook" where
  "fill_osc_prob self osc_prob_dict ecen czcen rest =
     (case fill_override self of
        None \<Rightarrow> Inl (NotImplementedError (''Method not implemented for '' @ cls_name self))
      | Some h \<Rightarrow> h osc_prob_dict ecen czcen rest)"

text \<open>The body of the loop over the four family names in \<^verbatim>\<open>get_osc_probLT_dict\<close>.\<close>

definition alloc_family :: "nat list \<Rightarrow> string \<Rightarrow> table \<Rightarrow> table" where
  "alloc_family shp nu osc_prob_dict =
     (if str_contains ''bar'' nu then
        AList.update nu
          (ToMaps [(''nue_bar'', zeros shp), (''numu_bar'', zeros shp), (''nutau_bar'', zeros shp)])
          osc_prob_dict
      else
        AList.update nu
          (ToMaps [(''nue'', zeros shp), (''numu'', zeros shp), (''nutau'', zeros shp)])
          osc_prob_dict)"

definition get_osc_probLT_dict ::
  "utils \<Rightarrow> 'p service \<Rightarrow> real list option \<Rightarrow> real list option \<Rightarrow> int \<Rightarrow> 'p \<Rightarrow> error + table"
where
  "get_osc_probLT_dict u self fine_ebins fine_czbins oversample rest =
     (case snd (check_oversampling u fine_ebins (ebins self) oversample) of
        Inl e \<Rightarrow> Inl e
      | Inr fine_e \<Rightarrow>
          (case snd (check_oversampling u fine_czbins (czbins self) oversample) of
             Inl e \<Rightarrow> Inl e
           | Inr fine_cz \<Rightarrow>
               (let ecen = get_bin_centers u fine_e;
                    czcen = get_bin_centers u fine_cz;
                    osc_prob_dict = [(''ebins'', Edges fine_e), (''czbins'', Edges fine_cz)];
                    shp = [length ecen, length czcen];
                    osc_prob_dict =
                      fold (alloc_family shp)
                        [''nue_maps'', ''numu_maps'', ''nue_bar_maps'', ''numu_bar_maps'']
                        osc_prob_dict
                in fill_osc_prob self osc_prob_dict ecen czcen rest)))"

text \<open>
  Reading a bin-edge array out of a table, as \<^verbatim>\<open>fine_maps['ebins']\<close> does before it is
  handed to \<^verbatim>\<open>subbinning\<close>.  The helpers are typed on arrays; an entry that is not an
  array is rejected here.
\<close>

definition get_edges :: "table \<Rightarrow> string \<Rightarrow> error + real list" where
  "get_edges d k =
     (case map_of d k of
        None \<Rightarrow> Inl (KeyError k)
      | Some (Edges a) \<Rightarrow> Inr a
      | Some (ToMaps m) \<Rightarrow> Inl (TypeError ''bin edges must be an array''))"

text \<open>The two loops of \<^verbatim>\<open>get_osc_prob_maps\<close> over the items of a dictionary.\<close>

fun smooth_tomaps ::
  "(ndarray \<Rightarrow> ndarray) \<Rightarrow> (string \<times> ndarray) list \<Rightarrow> (string \<times> ndarray) list
     \<Rightarrow> (string \<times> ndarray) list" where
  "smooth_tomaps smoothing_func [] new_tomaps = new_tomaps"
| "smooth_tomaps smoothing_func ((to_nu, tomap) # items) new_tomaps =
     smooth_tomaps smoothing_func items (AList.update to_nu (smoothing_func tomap) new_tomaps)"

fun smooth_families :: "(ndarray \<Rightarrow> ndarray) \<Rightarrow> table \<Rightarrow> table \<Rightarrow> error + table" where
  "smooth_families smoothing_func [] smoothed_maps = Inr smoothed_maps"
| "smooth_families smoothing_func ((from_nu, tomap_dict) # items) smoothed_maps =
     (if str_contains ''bins'' from_nu then smooth_families smoothing_func items smoothed_maps
      else
        (case tomap_dict of
           Edges a \<Rightarrow> Inl (AttributeError ''numpy.ndarray object has no attribute items'')
         | ToMaps d \<Rightarrow>
             smooth_families smoothing_func items
               (AList.update from_nu (ToMaps (smooth_tomaps smoothing_func d [])) smoothed_maps)))"

text \<open>
  The choice of the resampling strategy: \<^verbatim>\<open>if rebin_info\<close> holds for a non-empty list.
\<close>

definition smoothing_func ::
  "utils \<Rightarrow> 'p service \<Rightarrow> real list \<Rightarrow> real list \<Rightarrow> ndarray \<Rightarrow> ndarray" where
  "smoothing_func u self fine_e fine_cz =
     (case subbinning u [ebins self, czbins self] [fine_e, fine_cz] of
        Some (r # rs) \<Rightarrow> (\<lambda>osc_map. integer_rebin_map u osc_map (r # rs))
      | _ \<Rightarrow> (\<lambda>osc_map. get_smoothed_map u osc_map fine_e fine_cz (ebins self) (czbins self)))"

definition get_osc_prob_maps :: "utils \<Rightarrow> 'p service \<Rightarrow> 'p kwargs \<Rightarrow> error + table" where
  "get_osc_prob_maps u self kwargs =
     (case get_osc_probLT_dict u self (kw_fine_ebins kwargs) (kw_fine_czbins kwargs)
             (case kw_oversample kwargs of None \<Rightarrow> 2 | Some k \<Rightarrow> k) (kw_rest kwargs) of
        Inl e \<Rightarrow> Inl e
      | Inr fine_maps \<Rightarrow>
          (let smoothed_maps = AList.update ''ebins'' (Edges (ebins self)) [];
               smoothed_maps = AList.update ''czbins'' (Edges (czbins self)) smoothed_maps
           in case get_edges fine_maps ''ebins'' of
                Inl e \<Rightarrow> Inl e
              | Inr fine_e \<Rightarrow>
                  (case get_edges fine_maps ''czbins'' of
                     Inl e \<Rightarrow> Inl e
                   | Inr fine_cz \<Rightarrow>
                       smooth_families (smoothing_func u self fine_e fine_cz)
                         fine_maps smoothed_maps)))"

section \<open>Observations on probability tables\<close>

text \<open>
  The key structure of a table: its keys in order, and for each key whose entry is a
  dictionary of maps the keys of that dictionary.
\<close>

definition entry_keys :: "entry \<Rightarrow> string list option" where
  "entry_keys e = (case e of Edges a \<Rightarrow> None | ToMaps d \<Rightarrow> Some (map fst d))"

definition key_structure :: "table \<Rightarrow> (string \<times> string list option) list" where
  "key_structure t = map (\<lambda>(k, e). (k, entry_keys e)) t"

text \<open>
  A hook that fills probability values without adding or removing keys: whenever it
  returns, the table has the key structure of the table it was given.
\<close>

definition keeps_keys :: "'p hook \<Rightarrow> bool" where
  "keeps_keys h =
     (\<forall>t ecen czcen rest t'. h t ecen czcen rest = Inr t' \<longrightarrow> key_structure t' = key_structure t)"

text \<open>All two-dimensional maps held by a table.\<close>

definition table_arrays :: "table \<Rightarrow> ndarray list" where
  "table_arrays t =
     concat (map (\<lambda>(k, e). case e of Edges a \<Rightarrow> [] | ToMaps d \<Rightarrow> map snd d) t)"

text \<open>
  The table that \<^verbatim>\<open>get_osc_probLT_dict\<close> has built when it calls the hook, written
  out: the value of the loop over the four family names.
\<close>

definition fresh_table :: "real list \<Rightarrow> real list \<Rightarrow> nat list \<Rightarrow> table" where
  "fresh_table fine_e fine_cz shp =
     [(''ebins'', Edges fine_e), (''czbins'', Edges fine_cz),
      (''nue_maps'', ToMaps [(''nue'', zeros shp), (''numu'', zeros shp), (''nutau'', zeros shp)]),
      (''numu_maps'', ToMaps [(''nue'', zeros shp), (''numu'', zeros shp), (''nutau'', zeros shp)]),
      (''nue_bar_maps'',
         ToMaps [(''nue_bar'', zeros shp), (''numu_bar'', zeros shp), (''nutau_bar'', zeros shp)]),
      (''numu_bar_maps'',
         ToMaps [(''nue_bar'', zeros shp), (''numu_bar'', zeros shp), (''nutau_bar'', zeros shp)])]"

section \<open>An example service\<close>

text \<open>
  A derived class whose hook writes the probability \<open>1/3\<close> into every cell of every
  map, the coarse grid of the example scenario, and a call without keyword arguments.
\<close>

definition fill_entry :: "real \<Rightarrow> entry \<Rightarrow> entry" where
  "fill_entry p e =
     (case e of
        Edges a \<Rightarrow> Edges a
      | ToMaps d \<Rightarrow> ToMaps (map (\<lambda>(k, a). (k, a\<lparr>data := replicate (length (data a)) p\<rparr>)) d))"

definition example_hook :: "unit hook" where
  "example_hook osc_prob_dict ecen czcen rest =
     Inr (map (\<lambda>(k, e). (k, fill_entry (1 / 3) e)) osc_prob_dict)"

definition example_kwargs :: "unit kwargs" where
  "example_kwargs =
     \<lparr>kw_fine_ebins = None, kw_fine_czbins = None, kw_oversample = None, kw_rest = ()\<rparr>"

definition example_service :: "unit service" where
  "example_service =
     \<lparr>cls_name = ''ExampleService'', ebins = [1, 2, 3, 4], czbins = [- 1, 0, 1],
      fill_override = Some example_hook\<rparr>"

text \<open>A hook that leaves the table as it receives it, to observe that table.\<close>

definition observe_hook :: "unit hook" where
  "observe_hook osc_prob_dict ecen czcen rest = Inr osc_prob_dict"

text \<open>A fine map of shape \<open>(6, 4)\<close> whose cell \<open>(i, j)\<close> holds \<open>4 i + j\<close>.\<close>

definition example_map :: ndarray where
  "example_map =
     \<lparr>shape = [6, 4],
      data = [0, 1, 2, 3, 4, 5, 6, 7, 8, 9, 10, 11, 12, 13, 14, 15, 16, 17, 18, 19, 20, 21, 22, 23]\<rparr>"

text \<open>
  The map of shape \<open>(3, 2)\<close> whose cells are the means of the six \<open>2 \<times> 2\<close> blocks
  of a map of shape \<open>(6, 4)\<close>, and the same taken on every map of a table entry.
\<close>

definition block_means :: "ndarray \<Rightarrow> ndarray" where
  "block_means m =
     \<lparr>shape = [3, 2],
      data = [(cell m 0 0 + cell m 0 1 + cell m 1 0 + cell m 1 1) / 4,
              (cell m 0 2 + cell m 0 3 + cell m 1 2 + cell m 1 3) / 4,
              (cell m 2 0 + cell m 2 1 + cell m 3 0 + cell m 3 1) / 4,
              (cell m 2 2 + cell m 2 3 + cell m 3 2 + cell m 3 3) / 4,
              (cell m 4 0 + cell m 4 1 + cell m 5 0 + cell m 5 1) / 4,
              (cell m 4 2 + cell m 4 3 + cell m 5 2 + cell m 5 3) / 4]\<rparr>"

definition block_means_entry :: "entry \<Rightarrow> entry" where
  "block_means_entry e =
     (case e of
        Edges a \<Rightarrow> Edges a
      | ToMaps d \<Rightarrow> ToMaps (map (\<lambda>(to_nu, m). (to_nu, block_means m)) d))"

text \<open>The entries of a table that the loop of \<^verbatim>\<open>get_osc_prob_maps\<close> does not skip.\<close>

definition families :: "table \<Rightarrow> table" where
  "families t = filter (\<lambda>(k, e). \<not> str_contains ''bins'' k) t"

text \<open>A hook that stores the example map as every map of the table.\<close>

definition scenario_hook :: "unit hook" where
  "scenario_hook osc_prob_dict ecen czcen rest =
     Inr (map (\<lambda>(k, e). (k, case e of
                               Edges a \<Rightarrow> Edges a
                             | ToMaps d \<Rightarrow> ToMaps (map (\<lambda>(to_nu, m). (to_nu, example_map)) d)))
            osc_prob_dict)"

section \<open>Arrays in a store: aliasing and mutation in place\<close>

text \<open>
  The functions above are pure.  To state what a call leaves unchanged, the same source
  functions are modelled once more over a store: the list of the arrays allocated so far,
  an array being referred to by its index.  \<^verbatim>\<open>np.linspace\<close>, \<^verbatim>\<open>np.logspace\<close>,
  \<^verbatim>\<open>np.append\<close> and \<^verbatim>\<open>np.zeros\<close> allocate a new array; \<^verbatim>\<open>fine_bins.sort()\<close>
  overwrites the array it is called on; an assignment such as
  \<^verbatim>\<open>fine_bins = coarse_bins\<close> or \<^verbatim>\<open>smoothed_maps['ebins'] = self.ebins\<close> copies the
  reference.  Dictionaries are created by the call and hold references.  The log is not
  part of this model.
\<close>

type_synonym addr = nat

type_synonym store = "ndarray list"

definition arr1 :: "real list \<Rightarrow> ndarray" where
  "arr1 xs = \<lparr>shape = [length xs], data = xs\<rparr>"

definition alloc :: "store \<Rightarrow> ndarray \<Rightarrow> store \<times> addr" where
  "alloc s a = (s @ [a], length s)"

datatype entry_st = EdgesAt addr | ToMapsAt "(string \<times> addr) list"

type_synonym table_st = "(string \<times> entry_st) list"

text \<open>
  The hook of a derived class receives the store together with the table, and returns the
  store and the table as it has left them.
\<close>

type_synonym 'p hook_st =
  "store \<Rightarrow> table_st \<Rightarrow> addr \<Rightarrow> addr \<Rightarrow> 'p \<Rightarrow> error + store \<times> table_st"

record 'p service_st =
  st_cls_name :: string
  st_ebins :: addr
  st_czbins :: addr
  st_fill_override :: "'p hook_st option"

record 'p kwargs_st =
  st_fine_ebins :: "addr option"
  st_fine_czbins :: "addr option"
  st_oversample :: "int option"
  st_rest :: 'p

text \<open>
  Modelled from the spec: the helpers of \<^verbatim>\<open>pisa.utils.utils\<close> are missing.  The
  specification calls the grid utilities pure functions of the edges, and says of the two
  resampling strategies that they ``return a new 2-D array on the target grid shape;
  neither mutates its input array''.  Accordingly a helper reads the contents of its
  arguments, leaves the store as it is, and its result is allocated as a new array.
\<close>

fun insert_centers_st :: "utils \<Rightarrow> nat \<Rightarrow> store \<Rightarrow> addr \<Rightarrow> store \<times> addr" where
  "insert_centers_st u 0 s fine_bins = (s, fine_bins)"
| "insert_centers_st u (Suc n) s fine_bins =
     (case alloc s (arr1 (data (s ! fine_bins) @ get_bin_centers u (data (s ! fine_bins)))) of
        (s1, appended) \<Rightarrow>
          insert_centers_st u n (s1[appended := arr1 (sort (data (s1 ! appended)))]) appended)"

definition check_oversampling_st ::
  "utils \<Rightarrow> store \<Rightarrow> addr option \<Rightarrow> addr \<Rightarrow> int \<Rightarrow> error + store \<times> addr" where
  "check_oversampling_st u s fine_bins coarse_bins oversample =
     (case fine_bins of
        Some fb \<Rightarrow>
          if is_coarser_binning u (data (s ! coarse_bins)) (data (s ! fb)) then Inr (s, fb)
          else Inr (s, coarse_bins)
      | None \<Rightarrow>
          if is_linear u (data (s ! coarse_bins)) then
            (case getitem (data (s ! coarse_bins)) 0 of
               Inl e \<Rightarrow> Inl e
             | Inr lo \<Rightarrow>
                 (case getitem (data (s ! coarse_bins)) (- 1) of
                    Inl e \<Rightarrow> Inl e
                  | Inr hi \<Rightarrow>
                      (case linspace lo hi
                              (oversample * int (length (data (s ! coarse_bins))) - 1) of
                         Inl e \<Rightarrow> Inl e
                       | Inr ys \<Rightarrow> Inr (alloc s (arr1 ys)))))
          else if is_logarithmic u (data (s ! coarse_bins)) then
            (case getitem (data (s ! coarse_bins)) 0 of
               Inl e \<Rightarrow> Inl e
             | Inr lo \<Rightarrow>
                 (case getitem (data (s ! coarse_bins)) (- 1) of
                    Inl e \<Rightarrow> Inl e
                  | Inr hi \<Rightarrow>
                      (case logspace (log10 lo) (log10 hi)
                              (oversample * int (length (data (s ! coarse_bins))) - 1) of
                         Inl e \<Rightarrow> Inl e
                       | Inr ys \<Rightarrow> Inr (alloc s (arr1 ys)))))
          else Inr (insert_centers_st u (nat (oversample - 1)) s coarse_bins))"

definition fill_osc_prob_st :: "'p service_st \<Rightarrow> 'p hook_st" where
  "fill_osc_prob_st self s osc_prob_dict ecen czcen rest =
     (case st_fill_override self of
        None \<Rightarrow> Inl (NotImplementedError (''Method not implemented for '' @ st_cls_name self))
      | Some h \<Rightarrow> h s osc_prob_dict ecen czcen rest)"

fun alloc_maps :: "nat list \<Rightarrow> string list \<Rightarrow> store \<Rightarrow> store \<times> (string \<times> addr) list" where
  "alloc_maps shp [] s = (s, [])"
| "alloc_maps shp (nu # nus) s =
     (case alloc s (zeros shp) of
        (s1, a) \<Rightarrow> (case alloc_maps shp nus s1 of (s2, m) \<Rightarrow> (s2, (nu, a) # m)))"

definition alloc_family_st :: "nat list \<Rightarrow> string \<Rightarrow> store \<times> table_st \<Rightarrow> store \<times> table_st" where
  "alloc_family_st shp nu sd =
     (case sd of
        (s, osc_prob_dict) \<Rightarrow>
          (case alloc_maps shp
                  (if str_contains ''bar'' nu then [''nue_bar'', ''numu_bar'', ''nutau_bar'']
                   else [''nue'', ''numu'', ''nutau'']) s of
             (s1, m) \<Rightarrow> (s1, AList.update nu (ToMapsAt m) osc_prob_dict)))"

definition get_osc_probLT_dict_st ::
  "utils \<Rightarrow> 'p service_st \<Rightarrow> store \<Rightarrow> addr option \<Rightarrow> addr option \<Rightarrow> int \<Rightarrow> 'p
     \<Rightarrow> error + store \<times> table_st" where
  "get_osc_probLT_dict_st u self s fine_ebins fine_czbins oversample rest =
     (case check_oversampling_st u s fine_ebins (st_ebins self) oversample of
        Inl e \<Rightarrow> Inl e
      | Inr (s1, fine_e) \<Rightarrow>
          (case check_oversampling_st u s1 fine_czbins (st_czbins self) oversample of
             Inl e \<Rightarrow> Inl e
           | Inr (s2, fine_cz) \<Rightarrow>
               (case alloc s2 (arr1 (get_bin_centers u (data (s2 ! fine_e)))) of
                  (s3, ecen) \<Rightarrow>
                    (case alloc s3 (arr1 (get_bin_centers u (data (s3 ! fine_cz)))) of
                       (s4, czcen) \<Rightarrow>
                         (case fold
                                 (alloc_family_st
                                    [length (data (s4 ! ecen)), length (data (s4 ! czcen))])
                                 [''nue_maps'', ''numu_maps'', ''nue_bar_maps'', ''numu_bar_maps'']
                                 (s4, [(''ebins'', EdgesAt fine_e), (''czbins'', EdgesAt fine_cz)]) of
                            (s5, osc_prob_dict) \<Rightarrow>
                              fill_osc_prob_st self s5 osc_prob_dict ecen czcen rest)))))"

definition get_edges_st :: "table_st \<Rightarrow> string \<Rightarrow> error + addr" where
  "get_edges_st d k =
     (case map_of d k of
        None \<Rightarrow> Inl (KeyError k)
      | Some (EdgesAt a) \<Rightarrow> Inr a
      | Some (ToMapsAt m) \<Rightarrow> Inl (TypeError ''bin edges must be an array''))"

definition smoothing_func_st ::
  "utils \<Rightarrow> 'p service_st \<Rightarrow> rebin_info option \<Rightarrow> addr \<Rightarrow> addr \<Rightarrow> store \<Rightarrow> addr
     \<Rightarrow> store \<times> addr" where
  "smoothing_func_st u self rebin_info fine_e fine_cz s osc_map =
     (case rebin_info of
        Some (r # rs) \<Rightarrow> alloc s (integer_rebin_map u (s ! osc_map) (r # rs))
      | _ \<Rightarrow>
          alloc s (get_smoothed_map u (s ! osc_map) (data (s ! fine_e)) (data (s ! fine_cz))
                     (data (s ! st_ebins self)) (data (s ! st_czbins self))))"

fun smooth_tomaps_st ::
  "(store \<Rightarrow> addr \<Rightarrow> store \<times> addr) \<Rightarrow> (string \<times> addr) list \<Rightarrow> store \<times> (string \<times> addr) list
     \<Rightarrow> store \<times> (string \<times> addr) list" where
  "smooth_tomaps_st f [] sn = sn"
| "smooth_tomaps_st f ((to_nu, tomap) # items) sn =
     (case sn of
        (s, new_tomaps) \<Rightarrow>
          (case f s tomap of
             (s1, a) \<Rightarrow> smooth_tomaps_st f items (s1, AList.update to_nu a new_tomaps)))"

fun smooth_families_st ::
  "(store \<Rightarrow> addr \<Rightarrow> store \<times> addr) \<Rightarrow> table_st \<Rightarrow> store \<times> table_st
     \<Rightarrow> error + store \<times> table_st" where
  "smooth_families_st f [] sm = Inr sm"
| "smooth_families_st f ((from_nu, tomap_dict) # items) sm =
     (if str_contains ''bins'' from_nu then smooth_families_st f items sm
      else
        (case tomap_dict of
           EdgesAt a \<Rightarrow> Inl (AttributeError ''numpy.ndarray object has no attribute items'')
         | ToMapsAt d \<Rightarrow>
             (case sm of
                (s, smoothed_maps) \<Rightarrow>
                  (case smooth_tomaps_st f d (s, []) of
                     (s1, new_tomaps) \<Rightarrow>
                       smooth_families_st f items
                         (s1, AList.update from_nu (ToMapsAt new_tomaps) smoothed_maps)))))"

definition get_osc_prob_maps_st ::
  "utils \<Rightarrow> 'p service_st \<Rightarrow> store \<Rightarrow> 'p kwargs_st \<Rightarrow> error + store \<times> table_st" where
  "get_osc_prob_maps_st u self s kwargs =
     (case get_osc_probLT_dict_st u self s (st_fine_ebins kwargs) (st_fine_czbins kwargs)
             (case st_oversample kwargs of None \<Rightarrow> 2 | Some k \<Rightarrow> k) (st_rest kwargs) of
        Inl e \<Rightarrow> Inl e
      | Inr (s1, fine_maps) \<Rightarrow>
          (let smoothed_maps = AList.update ''ebins'' (EdgesAt (st_ebins self)) [];
               smoothed_maps = AList.update ''czbins'' (EdgesAt (st_czbins self)) smoothed_maps
           in case get_edges_st fine_maps ''ebins'' of
                Inl e \<Rightarrow> Inl e
              | Inr fine_e \<Rightarrow>
                  (case get_edges_st fine_maps ''czbins'' of
                     Inl e \<Rightarrow> Inl e
                   | Inr fine_cz \<Rightarrow>
                       smooth_families_st
                         (smoothing_func_st u self
                            (subbinning u [data (s1 ! st_ebins self), data (s1 ! st_czbins self)]
                               [data (s1 ! fine_e), data (s1 ! fine_cz)])
                            fine_e fine_cz)
                         fine_maps (s1, smoothed_maps))))"

text \<open>
  The contents of a table of references in a store, and the addresses it refers to: all of
  them, those of its maps, and those of its bin-edge arrays.
\<close>

definition deref_entry :: "store \<Rightarrow> entry_st \<Rightarrow> entry" where
  "deref_entry s e =
     (case e of
        EdgesAt a \<Rightarrow> Edges (data (s ! a))
      | ToMapsAt m \<Rightarrow> ToMaps (map (\<lambda>(k, a). (k, s ! a)) m))"

definition deref :: "store \<Rightarrow> table_st \<Rightarrow> table" where
  "deref s t = map (\<lambda>(k, e). (k, deref_entry s e)) t"

definition entry_addrs :: "entry_st \<Rightarrow> addr list" where
  "entry_addrs e = (case e of EdgesAt a \<Rightarrow> [a] | ToMapsAt m \<Rightarrow> map snd m)"

definition entry_maps :: "entry_st \<Rightarrow> addr list" where
  "entry_maps e = (case e of EdgesAt a \<Rightarrow> [] | ToMapsAt m \<Rightarrow> map snd m)"

definition entry_edges :: "entry_st \<Rightarrow> addr list" where
  "entry_edges e = (case e of EdgesAt a \<Rightarrow> [a] | ToMapsAt m \<Rightarrow> [])"

definition table_addrs :: "table_st \<Rightarrow> addr list" where
  "table_addrs t = concat (map (entry_addrs \<circ> snd) t)"

definition map_addrs :: "table_st \<Rightarrow> addr list" where
  "map_addrs t = concat (map (entry_maps \<circ> snd) t)"

definition edge_addrs :: "table_st \<Rightarrow> addr list" where
  "edge_addrs t = concat (map (entry_edges \<circ> snd) t)"

definition wf_table :: "store \<Rightarrow> table_st \<Rightarrow> bool" where
  "wf_table s t = list_all (\<lambda>a. a < length s) (table_addrs t)"

text \<open>
  From \<open>s\<close> to \<open>s'\<close> the store has only grown, and of the arrays of \<open>s\<close> only
  those at the addresses \<open>W\<close> may have been overwritten.
\<close>

definition frame :: "store \<Rightarrow> addr list \<Rightarrow> store \<Rightarrow> bool" where
  "frame s W s' =
     (length s \<le> length s' \<and> list_all (\<lambda>a. a \<in> set W \<or> s' ! a = s ! a) [0..<length s])"

text \<open>
  The maps of a table are pairwise different arrays, and different from the bin-edge
  arrays and the two arrays of bin centers.
\<close>

definition separate :: "table_st \<Rightarrow> addr \<Rightarrow> addr \<Rightarrow> bool" where
  "separate t ecen czcen =
     (distinct (map_addrs t) \<and>
      list_all (\<lambda>a. a \<notin> set (map_addrs t)) (ecen # czcen # edge_addrs t))"

text \<open>
  A hook on the store refines a pure hook \<open>h\<close> when, on every table whose maps are
  separate arrays, it writes into the maps of that table only (it may allocate), and the
  table it leaves has the contents that \<open>h\<close> computes from the contents it was given.
\<close>

definition hook_refines :: "'p hook_st \<Rightarrow> 'p hook \<Rightarrow> bool" where
  "hook_refines hst h =
     (\<forall>s t ecen czcen rest.
        wf_table s t \<and> ecen < length s \<and> czcen < length s \<and> separate t ecen czcen \<longrightarrow>
        (case h (deref s t) (data (s ! ecen)) (data (s ! czcen)) rest of
           Inl e \<Rightarrow> hst s t ecen czcen rest = Inl e
         | Inr t' \<Rightarrow>
             (\<exists>s' tst. hst s t ecen czcen rest = Inr (s', tst) \<and> frame s (map_addrs t) s' \<and>
                        wf_table s' tst \<and> deref s' tst = t')))"

text \<open>
  The pure view of an instance and of the keyword arguments in a store, and the
  conditions on a call: the references it is given point into the store.
\<close>

definition abs_service :: "store \<Rightarrow> 'p service_st \<Rightarrow> 'p hook \<Rightarrow> 'p service" where
  "abs_service s self h =
     \<lparr>cls_name = st_cls_name self, ebins = data (s ! st_ebins self),
      czbins = data (s ! st_czbins self),
      fill_override = (case st_fill_override self of None \<Rightarrow> None | Some hst \<Rightarrow> Some h)\<rparr>"

definition abs_kwargs :: "store \<Rightarrow> 'p kwargs_st \<Rightarrow> 'p kwargs" where
  "abs_kwargs s kwargs =
     \<lparr>kw_fine_ebins = map_option (\<lambda>a. data (s ! a)) (st_fine_ebins kwargs),
      kw_fine_czbins = map_option (\<lambda>a. data (s ! a)) (st_fine_czbins kwargs),
      kw_oversample = st_oversample kwargs, kw_rest = st_rest kwargs\<rparr>"

definition service_refines :: "'p service_st \<Rightarrow> 'p hook \<Rightarrow> bool" where
  "service_refines self h =
     (case st_fill_override self of None \<Rightarrow> True | Some hst \<Rightarrow> hook_refines hst h)"

definition valid_call :: "store \<Rightarrow> 'p service_st \<Rightarrow> 'p kwargs_st \<Rightarrow> bool" where
  "valid_call s self kwargs =
     (st_ebins self < length s \<and> st_czbins self < length s \<and>
      (case st_fine_ebins kwargs of None \<Rightarrow> True | Some a \<Rightarrow> a < length s) \<and>
      (case st_fine_czbins kwargs of None \<Rightarrow> True | Some a \<Rightarrow> a < length s))"

text \<open>
  The table built by \<^verbatim>\<open>get_osc_probLT_dict\<close> in the store, written out: twelve new
  arrays at consecutive addresses.  A function on the store that allocates the value of a
  pure function at every step.
\<close>

definition fresh_table_st :: "addr \<Rightarrow> addr \<Rightarrow> addr \<Rightarrow> table_st" where
  "fresh_table_st fine_e fine_cz n =
     [(''ebins'', EdgesAt fine_e), (''czbins'', EdgesAt fine_cz),
      (''nue_maps'', ToMapsAt [(''nue'', n), (''numu'', n + 1), (''nutau'', n + 2)]),
      (''numu_maps'', ToMapsAt [(''nue'', n + 3), (''numu'', n + 4), (''nutau'', n + 5)]),
      (''nue_bar_maps'',
         ToMapsAt [(''nue_bar'', n + 6), (''numu_bar'', n + 7), (''nutau_bar'', n + 8)]),
      (''numu_bar_maps'',
         ToMapsAt [(''nue_bar'', n + 9), (''numu_bar'', n + 10), (''nutau_bar'', n + 11)])]"

definition steps_like ::
  "store \<Rightarrow> (store \<Rightarrow> addr \<Rightarrow> store \<times> addr) \<Rightarrow> (ndarray \<Rightarrow> ndarray) \<Rightarrow> bool" where
  "steps_like s1 f fp = (\<forall>sx m. prefix s1 sx \<longrightarrow> f sx m = (sx @ [fp (sx ! m)], length sx))"

text \<open>
  The example service in a store: its hook overwrites every cell of every map with
  \<open>1/3\<close>; the store holds the two coarse axes.
\<close>

definition fill_array :: "real \<Rightarrow> ndarray \<Rightarrow> ndarray" where
  "fill_array p a = a\<lparr>data := replicate (length (data a)) p\<rparr>"

definition example_hook_st :: "unit hook_st" where
  "example_hook_st s osc_prob_dict ecen czcen rest =
     Inr (fold (\<lambda>a s. s[a := fill_array (1 / 3) (s ! a)]) (map_addrs osc_prob_dict) s,
          osc_prob_dict)"

definition example_store :: store where
  "example_store = [arr1 [1, 2, 3, 4], arr1 [- 1, 0, 1]]"

definition example_service_st :: "unit service_st" where
  "example_service_st =
     \<lparr>st_cls_name = ''ExampleService'', st_ebins = 0, st_czbins = 1,
      st_fill_override = Some example_hook_st\<rparr>"

definition example_kwargs_st :: "unit kwargs_st" where
  "example_kwargs_st =
     \<lparr>st_fine_ebins = None, st_fine_czbins = None, st_oversample = None, st_rest = ()\<rparr>"

section \<open>Facts about the numpy functions and the helpers\<close>

lemma linspace_length: "linspace a b n = Inr ys \<Longrightarrow> length ys = nat n"
  by (auto simp: linspace_def split: if_splits)

lemma linspace_returns: "0 \<le> n \<Longrightarrow> \<exists>ys. linspace a b n = Inr ys"
  by (simp add: linspace_def)

lemma logspace_length: "logspace a b n = Inr ys \<Longrightarrow> length ys = nat n"
  by (auto simp: logspace_def split: sum.splits dest: linspace_length)

lemma logspace_returns: "0 \<le> n \<Longrightarrow> \<exists>ys. logspace a b n = Inr ys"
  using linspace_returns [of n a b] by (auto simp: logspace_def)

lemma getitem_first: "xs \<noteq> [] \<Longrightarrow> getitem xs 0 = Inr (hd xs)"
  by (cases xs) (simp_all add: getitem_def)

lemma getitem_last: "xs \<noteq> [] \<Longrightarrow> getitem xs (- 1) = Inr (last xs)"
  by (cases xs rule: rev_cases) (simp_all add: getitem_def)

lemma upt_small: "[0..<2] = [0, 1::nat]" "[0..<3] = [0, 1, 2::nat]"
  by (simp_all add: upt_rec)

lemma pow2_gt: "2 \<le> n \<Longrightarrow> Suc n < 2 ^ n"
proof (induction n rule: dec_induct)
  case base
  then show ?case by simp
next
  case (step n)
  then show ?case by simp
qed

lemmas spec_eval =
  spec_utils_def spec_is_linear_def spec_is_logarithmic_def near_equal_def diffs_def ratios_def
  spec_get_bin_centers_def spec_subbinning_def spec_is_coarser_binning_def

lemma spec_get_bin_centers_length: "length (spec_get_bin_centers tol e) = length e - 1"
  by (simp add: spec_get_bin_centers_def)

section \<open>The fine grid chosen by \<^verbatim>\<open>check_oversampling\<close>\<close>

lemma insert_centers_funpow:
  "insert_centers u n fb = ((\<lambda>fb. sort (fb @ get_bin_centers u fb)) ^^ n) fb"
  by (induction n arbitrary: fb) (simp_all del: funpow.simps add: funpow_Suc_right)

lemma insert_centers_length:
  assumes "\<forall>e. length (get_bin_centers u e) = length e - 1" and "fb \<noteq> []"
  shows "length (insert_centers u n fb) = 2 ^ n * (length fb - 1) + 1"
  using assms(2)
proof (induction n arbitrary: fb)
  case 0
  then show ?case by (cases fb) simp_all
next
  case (Suc n)
  let ?g = "sort (fb @ get_bin_centers u fb)"
  have len: "length ?g = 2 * (length fb - 1) + 1"
    using assms(1) Suc.prems by (cases fb) simp_all
  have "?g \<noteq> []"
  proof
    assume "?g = []"
    then have "length ?g = 0" by (simp only: list.size)
    with len show False by linarith
  qed
  from Suc.IH [OF this] len show ?case by simp
qed

text \<open>
  With a non-empty coarse axis and a factor of at least 1, or with explicit fine edges,
  \<^verbatim>\<open>check_oversampling\<close> returns a grid.
\<close>

lemma check_oversampling_returns:
  assumes "fine \<noteq> None \<or> (c \<noteq> [] \<and> 1 \<le> k)"
  shows "\<exists>g. snd (check_oversampling u fine c k) = Inr g"
proof (cases fine)
  case (Some fb)
  then show ?thesis by (simp add: check_oversampling_def)
next
  case None
  with assms have c: "c \<noteq> []" and k: "1 \<le> k" by simp_all
  from c have "1 \<le> int (length c)" by (cases c) simp_all
  with k have "1 * 1 \<le> k * int (length c)" by (intro mult_mono) simp_all
  then have n: "0 \<le> k * int (length c) - 1" by simp
  obtain ys where ys: "linspace (hd c) (last c) (k * int (length c) - 1) = Inr ys"
    using linspace_returns [OF n] by blast
  obtain zs where zs: "logspace (log10 (hd c)) (log10 (last c)) (k * int (length c) - 1) = Inr zs"
    using logspace_returns [OF n] by blast
  from None c ys zs show ?thesis
    by (simp add: check_oversampling_def getitem_first getitem_last)
qed

text \<open>
  On a linear or logarithmic axis with \<open>N + 1\<close> edges the synthesized grid has
  \<open>k (N + 1) - 1\<close> edges, that is \<open>k N + k - 2\<close> bins.
\<close>

lemma check_oversampling_regular_edges:
  assumes "is_linear u c \<or> is_logarithmic u c" and "c \<noteq> []" and "1 \<le> k"
  shows "\<exists>fine. snd (check_oversampling u None c k) = Inr fine \<and>
           int (length fine) = k * int (length c) - 1"
proof -
  from assms(2) have "1 \<le> int (length c)" by (cases c) simp_all
  with assms(3) have "1 * 1 \<le> k * int (length c)" by (intro mult_mono) simp_all
  then have n: "0 \<le> k * int (length c) - 1" by simp
  obtain ys where ys: "linspace (hd c) (last c) (k * int (length c) - 1) = Inr ys"
    using linspace_returns [OF n] by blast
  obtain zs where zs: "logspace (log10 (hd c)) (log10 (last c)) (k * int (length c) - 1) = Inr zs"
    using logspace_returns [OF n] by blast
  have ly: "int (length ys) = k * int (length c) - 1"
    using linspace_length [OF ys] n by simp
  have lz: "int (length zs) = k * int (length c) - 1"
    using logspace_length [OF zs] n by simp
  show ?thesis
  proof (cases "is_linear u c")
    case True
    then have "snd (check_oversampling u None c k) = Inr ys"
      using ys assms(2) by (simp add: check_oversampling_def getitem_first getitem_last)
    with ly show ?thesis by simp
  next
    case False
    with assms(1) have "is_logarithmic u c" by simp
    with False have "snd (check_oversampling u None c k) = Inr zs"
      using zs assms(2) by (simp add: check_oversampling_def getitem_first getitem_last)
    with lz show ?thesis by simp
  qed
qed

lemma fine_e_example:
  "0 \<le> tol \<Longrightarrow> snd (check_oversampling (spec_utils tol sm) None [1, 2, 3, 4] 2) =
     Inr [1, 3 / 2, 2, 5 / 2, 3, 7 / 2, 4]"
  by (simp add: check_oversampling_def spec_eval getitem_def linspace_def upt_rec)

lemma fine_cz_example:
  "0 \<le> tol \<Longrightarrow> snd (check_oversampling (spec_utils tol sm) None [- 1, 0, 1] 2) =
     Inr [- 1, - 1 / 2, 0, 1 / 2, 1]"
  by (simp add: check_oversampling_def spec_eval getitem_def linspace_def upt_rec)

text \<open>
  Claim C2.  When explicit fine edges are given: if \<^verbatim>\<open>is_coarser_binning(coarse, fine)\<close>
  holds, the fine edges are returned unchanged (with an informational message); otherwise a
  warning is logged and the coarse edges are returned.  In both cases the call returns a
  grid, which is one of the two given grids, and neither the grid nor the log depends on
  \<^verbatim>\<open>oversample\<close>.
\<close>

theorem check_oversampling_explicit:
  "(is_coarser_binning u c fb \<longrightarrow>
      check_oversampling u (Some fb) c k =
        ([(INFO, ''Using requested binning for oversampling.'', [])], Inr fb)) \<and>
   (\<not> is_coarser_binning u c fb \<longrightarrow>
      snd (check_oversampling u (Some fb) c k) = Inr c \<and>
      map fst (fst (check_oversampling u (Some fb) c k)) = [WARNING]) \<and>
   (\<exists>g. snd (check_oversampling u (Some fb) c k) = Inr g \<and> (g = fb \<or> g = c)) \<and>
   (\<forall>k'. check_oversampling u (Some fb) c k' = check_oversampling u (Some fb) c k)"
  by (simp add: check_oversampling_def)

text \<open>
  Both cases of C2 at concrete grids: \<open>[1, 2, 3]\<close> refines \<open>[1, 3]\<close> and is kept;
  \<open>[1, 3]\<close> does not refine \<open>[1, 2, 3]\<close> and is replaced by it with a warning.
\<close>

theorem check_oversampling_explicit_witness:
  "check_oversampling example_utils (Some [1, 2, 3]) [1, 3] 5 =
     ([(INFO, ''Using requested binning for oversampling.'', [])], Inr [1, 2, 3]) \<and>
   snd (check_oversampling example_utils (Some [1, 3]) [1, 2, 3] 5) = Inr [1, 2, 3] \<and>
   map fst (fst (check_oversampling example_utils (Some [1, 3]) [1, 2, 3] 5)) = [WARNING]"
proof -
  have a: "is_coarser_binning example_utils [1, 3] [1, 2, 3]"
    unfolding example_utils_def spec_utils_def by simp code_simp
  have b: "\<not> is_coarser_binning example_utils [1, 2, 3] [1, 3]"
    unfolding example_utils_def spec_utils_def by simp code_simp
  from a b check_oversampling_explicit [of example_utils "[1, 3]" "[1, 2, 3]" 5]
    check_oversampling_explicit [of example_utils "[1, 2, 3]" "[1, 3]" 5]
  show ?thesis by blast
qed

text \<open>
  Claim C3 fails on the code.  For the linear axis \<open>[1, 2, 3, 4]\<close> (3 bins) and
  \<^verbatim>\<open>oversample = 3\<close>, the synthesized grid has 11 edges, that is 10 bins, which is not a
  multiple of 3, and the coarse edges 2 and 3 are not among the fine edges.
\<close>

theorem oversample_three_not_refinement:
  "\<exists>fine. snd (check_oversampling example_utils None [1, 2, 3, 4] 3) = Inr fine \<and>
      length fine - 1 = 10 \<and>
      \<not> (length [1, 2, 3, 4 :: real] - 1) dvd (length fine - 1) \<and>
      2 \<notin> set fine \<and> 3 \<notin> set fine"
  apply (simp add: check_oversampling_def example_utils_def spec_eval getitem_def linspace_def upt_rec)
  apply (simp del: One_nat_def add: One_nat_def [symmetric])
  done

text \<open>
  Claim C9.  For a linear or logarithmic coarse axis, no explicit fine edges and
  \<^verbatim>\<open>oversample = 1\<close>, \<^verbatim>\<open>check_oversampling\<close> returns a grid with
  \<^verbatim>\<open>len(coarse_bins) - 1\<close> edges; on an axis with at least one bin this grid has one bin
  fewer than the coarse grid.
\<close>

theorem check_oversampling_factor_one:
  assumes "is_linear u c \<or> is_logarithmic u c" and "c \<noteq> []"
  shows "\<exists>fine. snd (check_oversampling u None c 1) = Inr fine \<and>
           length fine + 1 = length c \<and>
           (2 \<le> length c \<longrightarrow> length fine - 1 < length c - 1)"
proof -
  have n: "0 \<le> 1 * int (length c) - 1" using assms(2) by (cases c) simp_all
  obtain ys where ys: "linspace (hd c) (last c) (1 * int (length c) - 1) = Inr ys"
    using linspace_returns [OF n] by blast
  obtain zs where zs: "logspace (log10 (hd c)) (log10 (last c)) (1 * int (length c) - 1) = Inr zs"
    using logspace_returns [OF n] by blast
  have ly: "length ys + 1 = length c"
    using linspace_length [OF ys] assms(2) by (cases c) simp_all
  have lz: "length zs + 1 = length c"
    using logspace_length [OF zs] assms(2) by (cases c) simp_all
  show ?thesis
  proof (cases "is_linear u c")
    case True
    then have "snd (check_oversampling u None c 1) = Inr ys"
      using ys assms(2) by (simp add: check_oversampling_def getitem_first getitem_last)
    with ly show ?thesis by auto
  next
    case False
    with assms(1) have "is_logarithmic u c" by simp
    with False have "snd (check_oversampling u None c 1) = Inr zs"
      using zs assms(2) by (simp add: check_oversampling_def getitem_first getitem_last)
    with lz show ?thesis by auto
  qed
qed

text \<open>C9 on the linear axis \<open>[1, 2, 3, 4]\<close>: three edges are returned, two bins for three.\<close>

theorem check_oversampling_factor_one_witness:
  "\<exists>fine. snd (check_oversampling example_utils None [1, 2, 3, 4] 1) = Inr fine \<and>
      length fine + 1 = 4 \<and> length fine - 1 < 3"
proof -
  have a: "is_linear example_utils [1, 2, 3, 4] \<or> is_logarithmic example_utils [1, 2, 3, 4]"
    by (simp add: example_utils_def spec_eval)
  have b: "[1, 2, 3, 4 :: real] \<noteq> []" by simp
  from check_oversampling_factor_one [OF a b] show ?thesis by (simp add: numeral_3_eq_3)
qed

text \<open>
  Claim C10.  For an irregular coarse axis with \<open>N\<close> bins, no explicit fine edges and
  \<^verbatim>\<open>oversample = k \<ge> 1\<close>, where \<^verbatim>\<open>get_bin_centers\<close> returns one center per bin: the
  result is the loop body (append the bin centers, sort) applied \<open>k - 1\<close> times to the
  coarse grid, it has \<open>2\<^sup>k\<^sup>-\<^sup>1 N\<close> bins, and for \<open>k \<ge> 3\<close> on an axis with at least one
  bin this differs from \<open>k N\<close>.
\<close>

theorem check_oversampling_irregular:
  assumes "\<not> is_linear u c" and "\<not> is_logarithmic u c" and "1 \<le> k" and "c \<noteq> []"
    and "\<forall>e. length (get_bin_centers u e) = length e - 1"
  shows "\<exists>fine. snd (check_oversampling u None c k) = Inr fine \<and>
           fine = ((\<lambda>fb. sort (fb @ get_bin_centers u fb)) ^^ nat (k - 1)) c \<and>
           length fine - 1 = 2 ^ nat (k - 1) * (length c - 1) \<and>
           (3 \<le> k \<and> 2 \<le> length c \<longrightarrow> length fine - 1 \<noteq> nat k * (length c - 1))"
proof -
  let ?fine = "insert_centers u (nat (k - 1)) c"
  have r: "snd (check_oversampling u None c k) = Inr ?fine"
    using assms(1,2) by (simp add: check_oversampling_def)
  have l: "length ?fine - 1 = 2 ^ nat (k - 1) * (length c - 1)"
    using insert_centers_length [OF assms(5) assms(4)] by simp
  have ne: "length ?fine - 1 \<noteq> nat k * (length c - 1)" if "3 \<le> k" "2 \<le> length c"
  proof -
    have "2 \<le> nat (k - 1)" using that(1) by simp
    from pow2_gt [OF this] have "nat k < 2 ^ nat (k - 1)"
      using that(1) by (simp add: Suc_nat_eq_nat_zadd1)
    moreover have "0 < length c - 1" using that(2) by simp
    ultimately have "nat k * (length c - 1) < 2 ^ nat (k - 1) * (length c - 1)"
      by simp
    with l show ?thesis by simp
  qed
  from r l ne show ?thesis by (simp add: insert_centers_funpow)
qed

text \<open>
  C10 on the irregular axis \<open>[1, 2, 4, 7]\<close> (3 bins) with \<^verbatim>\<open>oversample = 3\<close>: the
  grid has 12 bins, not 9.
\<close>

theorem check_oversampling_irregular_witness:
  "\<exists>fine. snd (check_oversampling example_utils None [1, 2, 4, 7] 3) = Inr fine \<and>
      length fine - 1 = 12 \<and> length fine - 1 \<noteq> 9"
proof -
  have a: "\<not> is_linear example_utils [1, 2, 4, 7]"
    by (simp add: example_utils_def spec_eval)
  have b: "\<not> is_logarithmic example_utils [1, 2, 4, 7]"
    by (simp add: example_utils_def spec_eval)
  have c: "(1::int) \<le> 3" by simp
  have d: "[1, 2, 4, 7 :: real] \<noteq> []" by simp
  have e: "\<forall>e. length (get_bin_centers example_utils e) = length e - 1"
    by (simp add: example_utils_def spec_utils_def spec_get_bin_centers_length)
  from check_oversampling_irregular [OF a b c d e] show ?thesis by simp
qed

section \<open>Construction\<close>

text \<open>
  Claim C4, as amended.  The constructor checks the number of dimensions and nothing
  else: when both arguments are one-dimensional it returns an instance that stores the two
  axes, and otherwise it raises \<^verbatim>\<open>IndexError\<close> with the message
  \<^verbatim>\<open>Axes must be 1d!\<close>.  The order and the number of the edges are not examined.
\<close>

theorem init_one_dimensional:
  "(length (shape ebins_arg) = 1 \<and> length (shape czbins_arg) = 1 \<longrightarrow>
      init cls hook ebins_arg czbins_arg =
        Inr \<lparr>cls_name = cls, ebins = data ebins_arg, czbins = data czbins_arg,
             fill_override = hook\<rparr>) \<and>
   (\<not> (length (shape ebins_arg) = 1 \<and> length (shape czbins_arg) = 1) \<longrightarrow>
      (\<exists>msg. init cls hook ebins_arg czbins_arg = Inl (IndexError (''Axes must be 1d! '' @ msg))))"
  by (auto simp add: init_def)

text \<open>
  The amended C4 on two calls: one-dimensional axes are stored, a \<open>2 \<times> 2\<close> energy
  axis is refused.
\<close>

theorem init_one_dimensional_witness:
  "init ''ExampleService'' (Some example_hook) \<lparr>shape = [4], data = [1, 2, 3, 4]\<rparr>
     \<lparr>shape = [3], data = [- 1, 0, 1]\<rparr> = Inr example_service \<and>
   (\<exists>msg. init ''ExampleService'' (Some example_hook) \<lparr>shape = [2, 2], data = [1, 2, 3, 4]\<rparr>
     \<lparr>shape = [3], data = [- 1, 0, 1]\<rparr> = Inl (IndexError (''Axes must be 1d! '' @ msg)))"
  using init_one_dimensional [of "\<lparr>shape = [4], data = [1, 2, 3, 4]\<rparr>"
          "\<lparr>shape = [3], data = [- 1, 0, 1]\<rparr>" "''ExampleService''" "Some example_hook"]
        init_one_dimensional [of "\<lparr>shape = [2, 2], data = [1, 2, 3, 4]\<rparr>"
          "\<lparr>shape = [3], data = [- 1, 0, 1]\<rparr>" "''ExampleService''" "Some example_hook"]
  by (simp add: example_service_def)

text \<open>
  Claim C4 as stated fails: construction succeeds on an energy axis that is not
  increasing and a cosine-zenith axis with a single edge.
\<close>

theorem init_accepts_unsorted_and_short:
  "\<not> sorted_wrt (<) [3, 1, 2 :: real] \<and> length [5 :: real] < 2 \<and>
   init ''ExampleService'' (Some example_hook) \<lparr>shape = [3], data = [3, 1, 2]\<rparr>
     \<lparr>shape = [1], data = [5]\<rparr> =
     Inr \<lparr>cls_name = ''ExampleService'', ebins = [3, 1, 2], czbins = [5],
          fill_override = Some example_hook\<rparr>"
  by (simp add: init_def)

section \<open>The fine-grid table\<close>

lemma get_osc_probLT_dict_eq:
  assumes "snd (check_oversampling u fine_ebins (ebins self) k) = Inr fine_e"
      and "snd (check_oversampling u fine_czbins (czbins self) k) = Inr fine_cz"
  shows "get_osc_probLT_dict u self fine_ebins fine_czbins k rest =
           fill_osc_prob self
             (fresh_table fine_e fine_cz
                [length (get_bin_centers u fine_e), length (get_bin_centers u fine_cz)])
             (get_bin_centers u fine_e) (get_bin_centers u fine_cz) rest"
  using assms by (simp add: get_osc_probLT_dict_def Let_def alloc_family_def fresh_table_def)

lemma get_osc_probLT_dict_Inr:
  assumes "get_osc_probLT_dict u self a b k rest = Inr fine"
  shows "\<exists>fe fcz. fill_osc_prob self
           (fresh_table fe fcz [length (get_bin_centers u fe), length (get_bin_centers u fcz)])
           (get_bin_centers u fe) (get_bin_centers u fcz) rest = Inr fine"
  using assms
  by (auto simp add: get_osc_probLT_dict_def Let_def alloc_family_def fresh_table_def
           split: sum.splits)

lemma key_structure_fresh:
  "key_structure (fresh_table fe fcz shp) =
     [(''ebins'', None), (''czbins'', None),
      (''nue_maps'', Some [''nue'', ''numu'', ''nutau'']),
      (''numu_maps'', Some [''nue'', ''numu'', ''nutau'']),
      (''nue_bar_maps'', Some [''nue_bar'', ''numu_bar'', ''nutau_bar'']),
      (''numu_bar_maps'', Some [''nue_bar'', ''numu_bar'', ''nutau_bar''])]"
  by (simp add: key_structure_def fresh_table_def entry_keys_def)

text \<open>
  Claim C5, as amended.  Once the fine grid is determined, \<^verbatim>\<open>get_osc_probLT_dict\<close>
  calls the hook with a table that holds the fine edges and four groups, \<^verbatim>\<open>nue_maps\<close>,
  \<^verbatim>\<open>numu_maps\<close>, \<^verbatim>\<open>nue_bar_maps\<close> and \<^verbatim>\<open>numu_bar_maps\<close>, of three maps each: twelve
  arrays, every one the zero array of shape \<^verbatim>\<open>(len(ecen), len(czcen))\<close>.  The result of
  the call is the result of the hook on this table.
\<close>

theorem get_osc_probLT_dict_allocates:
  assumes "snd (check_oversampling u fine_ebins (ebins self) k) = Inr fine_e"
      and "snd (check_oversampling u fine_czbins (czbins self) k) = Inr fine_cz"
  shows "\<exists>T ecen czcen.
           ecen = get_bin_centers u fine_e \<and> czcen = get_bin_centers u fine_cz \<and>
           T = fresh_table fine_e fine_cz [length ecen, length czcen] \<and>
           get_osc_probLT_dict u self fine_ebins fine_czbins k rest =
             fill_osc_prob self T ecen czcen rest \<and>
           map fst T = [''ebins'', ''czbins'', ''nue_maps'', ''numu_maps'', ''nue_bar_maps'',
                        ''numu_bar_maps''] \<and>
           length (table_arrays T) = 12 \<and>
           list_all (\<lambda>a. a = zeros [length ecen, length czcen]) (table_arrays T)"
  using get_osc_probLT_dict_eq [OF assms, of rest]
  by (simp add: fresh_table_def table_arrays_def)

text \<open>
  The amended C5 in the example scenario: the hook of the example service receives twelve
  zero arrays of shape \<open>(6, 4)\<close>.
\<close>

theorem get_osc_probLT_dict_allocates_witness:
  "\<exists>T ecen czcen.
     get_osc_probLT_dict example_utils example_service None None 2 () =
       fill_osc_prob example_service T ecen czcen () \<and>
     length ecen = 6 \<and> length czcen = 4 \<and>
     length (table_arrays T) = 12 \<and>
     list_all (\<lambda>a. a = zeros [6, 4]) (table_arrays T)"
proof -
  have tol: "(0::real) \<le> 1 / 100000" by simp
  have e: "snd (check_oversampling example_utils None (ebins example_service) 2) =
      Inr [1, 3 / 2, 2, 5 / 2, 3, 7 / 2, 4]"
    using fine_e_example [OF tol] by (simp add: example_utils_def example_service_def)
  have cz: "snd (check_oversampling example_utils None (czbins example_service) 2) =
      Inr [- 1, - 1 / 2, 0, 1 / 2, 1]"
    using fine_cz_example [OF tol] by (simp add: example_utils_def example_service_def)
  have le: "length (get_bin_centers example_utils [1, 3 / 2, 2, 5 / 2, 3, 7 / 2, 4]) = 6"
    by (simp add: example_utils_def spec_utils_def spec_get_bin_centers_length)
  have lcz: "length (get_bin_centers example_utils [- 1, - 1 / 2, 0, 1 / 2, 1]) = 4"
    by (simp add: example_utils_def spec_utils_def spec_get_bin_centers_length)
  from get_osc_probLT_dict_allocates [OF e cz, of "()"] le lcz show ?thesis
    by auto
qed

text \<open>
  Claim C5 as stated fails on the count: with a hook that returns the table as it receives
  it, the table of the example scenario holds twelve arrays, not eight.
\<close>

theorem allocates_twelve_not_eight:
  "\<exists>T. get_osc_probLT_dict example_utils (example_service\<lparr>fill_override := Some observe_hook\<rparr>)
          None None 2 () = Inr T \<and>
       length (table_arrays T) = 12 \<and> length (table_arrays T) \<noteq> 8"
proof -
  have tol: "(0::real) \<le> 1 / 100000" by simp
  let ?self = "example_service\<lparr>fill_override := Some observe_hook\<rparr>"
  have e: "snd (check_oversampling example_utils None (ebins ?self) 2) =
      Inr [1, 3 / 2, 2, 5 / 2, 3, 7 / 2, 4]"
    using fine_e_example [OF tol] by (simp add: example_utils_def example_service_def)
  have cz: "snd (check_oversampling example_utils None (czbins ?self) 2) =
      Inr [- 1, - 1 / 2, 0, 1 / 2, 1]"
    using fine_cz_example [OF tol] by (simp add: example_utils_def example_service_def)
  show ?thesis
    unfolding get_osc_probLT_dict_eq [OF e cz]
    by (simp add: fill_osc_prob_def observe_hook_def fresh_table_def table_arrays_def)
qed

section \<open>The hook of the base class\<close>

lemma get_osc_prob_maps_error:
  "get_osc_probLT_dict u self (kw_fine_ebins kw) (kw_fine_czbins kw)
     (case kw_oversample kw of None \<Rightarrow> 2 | Some k \<Rightarrow> k) (kw_rest kw) = Inl e
   \<Longrightarrow> get_osc_prob_maps u self kw = Inl e"
  by (simp add: get_osc_prob_maps_def)

lemma get_osc_probLT_dict_base:
  assumes "fill_override self = None"
  shows "\<exists>e. get_osc_probLT_dict u self fe fcz k rest = Inl e"
  using assms
  by (auto simp add: get_osc_probLT_dict_def fill_osc_prob_def Let_def split: sum.splits)

text \<open>
  Claim C6.  On an instance whose class does not override \<^verbatim>\<open>fill_osc_prob\<close>, the hook
  raises \<^verbatim>\<open>NotImplementedError\<close> with a message that ends in the name of the class of
  the instance.  A call of \<^verbatim>\<open>get_osc_prob_maps\<close> on such an instance never returns a
  table; whenever the fine grid can be determined (explicit fine edges, or a non-empty axis
  and a factor of at least 1) the exception it raises is this one.
\<close>

theorem base_hook_not_implemented:
  assumes "fill_override self = None"
  shows "fill_osc_prob self t ecen czcen rest =
           Inl (NotImplementedError (''Method not implemented for '' @ cls_name self)) \<and>
         (\<exists>e. get_osc_prob_maps u self kw = Inl e) \<and>
         ((kw_fine_ebins kw \<noteq> None \<or>
             (ebins self \<noteq> [] \<and> 1 \<le> (case kw_oversample kw of None \<Rightarrow> 2 | Some k \<Rightarrow> k))) \<and>
          (kw_fine_czbins kw \<noteq> None \<or>
             (czbins self \<noteq> [] \<and> 1 \<le> (case kw_oversample kw of None \<Rightarrow> 2 | Some k \<Rightarrow> k)))
          \<longrightarrow> get_osc_prob_maps u self kw =
                Inl (NotImplementedError (''Method not implemented for '' @ cls_name self)))"
proof (intro conjI impI)
  show "fill_osc_prob self t ecen czcen rest =
      Inl (NotImplementedError (''Method not implemented for '' @ cls_name self))"
    using assms by (simp add: fill_osc_prob_def)
  show "\<exists>e. get_osc_prob_maps u self kw = Inl e"
    using get_osc_probLT_dict_base [OF assms] get_osc_prob_maps_error by metis
  let ?k = "case kw_oversample kw of None \<Rightarrow> 2 | Some k \<Rightarrow> k"
  assume ok: "(kw_fine_ebins kw \<noteq> None \<or> (ebins self \<noteq> [] \<and> 1 \<le> ?k)) \<and>
              (kw_fine_czbins kw \<noteq> None \<or> (czbins self \<noteq> [] \<and> 1 \<le> ?k))"
  obtain fe where fe: "snd (check_oversampling u (kw_fine_ebins kw) (ebins self) ?k) = Inr fe"
    using check_oversampling_returns ok by blast
  obtain fcz where fcz: "snd (check_oversampling u (kw_fine_czbins kw) (czbins self) ?k) = Inr fcz"
    using check_oversampling_returns ok by blast
  have "get_osc_probLT_dict u self (kw_fine_ebins kw) (kw_fine_czbins kw) ?k (kw_rest kw) =
          Inl (NotImplementedError (''Method not implemented for '' @ cls_name self))"
    using assms by (simp add: get_osc_probLT_dict_eq [OF fe fcz] fill_osc_prob_def)
  then show "get_osc_prob_maps u self kw =
      Inl (NotImplementedError (''Method not implemented for '' @ cls_name self))"
    by (rule get_osc_prob_maps_error)
qed

text \<open>
  C6 on the example service with the override removed: the call raises
  \<^verbatim>\<open>NotImplementedError\<close> naming \<^verbatim>\<open>ExampleService\<close>.
\<close>

theorem base_hook_not_implemented_witness:
  "get_osc_prob_maps example_utils (example_service\<lparr>fill_override := None\<rparr>) example_kwargs =
     Inl (NotImplementedError ''Method not implemented for ExampleService'')"
proof -
  have a: "fill_override (example_service\<lparr>fill_override := None\<rparr>) = None" by simp
  from base_hook_not_implemented [OF a, where u = example_utils and kw = example_kwargs]
  show ?thesis by (simp add: example_service_def example_kwargs_def)
qed

section \<open>The keys of the coarse table\<close>

lemma entry_keys_None: "entry_keys e = None \<Longrightarrow> \<exists>a. e = Edges a"
  by (cases e) (simp_all add: entry_keys_def)

lemma entry_keys_three:
  "entry_keys e = Some [k1, k2, k3] \<Longrightarrow> \<exists>a b c. e = ToMaps [(k1, a), (k2, b), (k3, c)]"
  by (cases e) (auto simp add: entry_keys_def map_eq_Cons_conv)

text \<open>A table is determined by its key structure up to the arrays it holds.\<close>

lemma key_structure_inv:
  assumes "key_structure t =
     [(n1, None), (n2, None), (n3, Some [a1, a2, a3]), (n4, Some [b1, b2, b3]),
      (n5, Some [c1, c2, c3]), (n6, Some [d1, d2, d3])]"
  shows "\<exists>e cz x1 x2 x3 y1 y2 y3 z1 z2 z3 w1 w2 w3.
    t = [(n1, Edges e), (n2, Edges cz),
         (n3, ToMaps [(a1, x1), (a2, x2), (a3, x3)]),
         (n4, ToMaps [(b1, y1), (b2, y2), (b3, y3)]),
         (n5, ToMaps [(c1, z1), (c2, z2), (c3, z3)]),
         (n6, ToMaps [(d1, w1), (d2, w2), (d3, w3)])]"
proof -
  from assms obtain p1 p2 p3 p4 p5 p6 where t: "t = [p1, p2, p3, p4, p5, p6]"
    and p: "fst p1 = n1" "entry_keys (snd p1) = None"
           "fst p2 = n2" "entry_keys (snd p2) = None"
           "fst p3 = n3" "entry_keys (snd p3) = Some [a1, a2, a3]"
           "fst p4 = n4" "entry_keys (snd p4) = Some [b1, b2, b3]"
           "fst p5 = n5" "entry_keys (snd p5) = Some [c1, c2, c3]"
           "fst p6 = n6" "entry_keys (snd p6) = Some [d1, d2, d3]"
    by (auto simp add: key_structure_def map_eq_Cons_conv split: prod.splits)
  from p(2) obtain e where "snd p1 = Edges e" using entry_keys_None by blast
  moreover from p(4) obtain cz where "snd p2 = Edges cz" using entry_keys_None by blast
  moreover from p(6) obtain x1 x2 x3 where "snd p3 = ToMaps [(a1, x1), (a2, x2), (a3, x3)]"
    using entry_keys_three by blast
  moreover from p(8) obtain y1 y2 y3 where "snd p4 = ToMaps [(b1, y1), (b2, y2), (b3, y3)]"
    using entry_keys_three by blast
  moreover from p(10) obtain z1 z2 z3 where "snd p5 = ToMaps [(c1, z1), (c2, z2), (c3, z3)]"
    using entry_keys_three by blast
  moreover from p(12) obtain w1 w2 w3 where "snd p6 = ToMaps [(d1, w1), (d2, w2), (d3, w3)]"
    using entry_keys_three by blast
  ultimately show ?thesis using t p(1,3,5,7,9,11)
    by (metis prod.collapse)
qed

text \<open>
  Claim C1.  Let the instance be built by the constructor from the arrays
  \<^verbatim>\<open>ebins\<close> and \<^verbatim>\<open>czbins\<close>, with a hook that keeps the key structure of the table it
  fills.  Then every dictionary returned by \<^verbatim>\<open>get_osc_prob_maps\<close> has exactly the keys
  \<^verbatim>\<open>ebins\<close>, \<^verbatim>\<open>czbins\<close> and the four family keys; each family maps to exactly three
  destination flavors (the antiflavors for the two \<^verbatim>\<open>bar\<close> families); and the entries
  under \<^verbatim>\<open>ebins\<close> and \<^verbatim>\<open>czbins\<close> are the edge arrays given to the constructor.
\<close>

theorem get_osc_prob_maps_keys:
  assumes init: "init cls (Some h) ebins_arg czbins_arg = Inr self"
      and kk: "keeps_keys h"
      and ret: "get_osc_prob_maps u self kw = Inr r"
  shows "key_structure r =
           [(''ebins'', None), (''czbins'', None),
            (''nue_maps'', Some [''nue'', ''numu'', ''nutau'']),
            (''numu_maps'', Some [''nue'', ''numu'', ''nutau'']),
            (''nue_bar_maps'', Some [''nue_bar'', ''numu_bar'', ''nutau_bar'']),
            (''numu_bar_maps'', Some [''nue_bar'', ''numu_bar'', ''nutau_bar''])] \<and>
         map_of r ''ebins'' = Some (Edges (data ebins_arg)) \<and>
         map_of r ''czbins'' = Some (Edges (data czbins_arg))"
proof -
  from init have self: "fill_override self = Some h" "ebins self = data ebins_arg"
    "czbins self = data czbins_arg"
    by (auto simp add: init_def split: if_splits)
  let ?k = "case kw_oversample kw of None \<Rightarrow> 2 | Some k \<Rightarrow> k"
  from ret obtain fine where
    fine: "get_osc_probLT_dict u self (kw_fine_ebins kw) (kw_fine_czbins kw) ?k (kw_rest kw) = Inr fine"
    by (auto simp add: get_osc_prob_maps_def split: sum.splits)
  from get_osc_probLT_dict_Inr [OF fine] self(1) obtain T ecen czcen fe fcz shp where
    "h T ecen czcen (kw_rest kw) = Inr fine" and T: "T = fresh_table fe fcz shp"
    by (auto simp add: fill_osc_prob_def)
  with kk have "key_structure fine = key_structure T"
    by (auto simp add: keeps_keys_def)
  then have "key_structure fine =
           [(''ebins'', None), (''czbins'', None),
            (''nue_maps'', Some [''nue'', ''numu'', ''nutau'']),
            (''numu_maps'', Some [''nue'', ''numu'', ''nutau'']),
            (''nue_bar_maps'', Some [''nue_bar'', ''numu_bar'', ''nutau_bar'']),
            (''numu_bar_maps'', Some [''nue_bar'', ''numu_bar'', ''nutau_bar''])]"
    by (simp add: T key_structure_fresh)
  from key_structure_inv [OF this] obtain e cz x1 x2 x3 y1 y2 y3 z1 z2 z3 w1 w2 w3 where
    shape_fine: "fine = [(''ebins'', Edges e), (''czbins'', Edges cz),
         (''nue_maps'', ToMaps [(''nue'', x1), (''numu'', x2), (''nutau'', x3)]),
         (''numu_maps'', ToMaps [(''nue'', y1), (''numu'', y2), (''nutau'', y3)]),
         (''nue_bar_maps'', ToMaps [(''nue_bar'', z1), (''numu_bar'', z2), (''nutau_bar'', z3)]),
         (''numu_bar_maps'', ToMaps [(''nue_bar'', w1), (''numu_bar'', w2), (''nutau_bar'', w3)])]"
    by blast
  define f where "f = smoothing_func u self e cz"
  from ret fine have "r = [(''ebins'', Edges (ebins self)), (''czbins'', Edges (czbins self)),
         (''nue_maps'', ToMaps [(''nue'', f x1), (''numu'', f x2), (''nutau'', f x3)]),
         (''numu_maps'', ToMaps [(''nue'', f y1), (''numu'', f y2), (''nutau'', f y3)]),
         (''nue_bar_maps'', ToMaps [(''nue_bar'', f z1), (''numu_bar'', f z2), (''nutau_bar'', f z3)]),
         (''numu_bar_maps'', ToMaps [(''nue_bar'', f w1), (''numu_bar'', f w2), (''nutau_bar'', f w3)])]"
    by (simp add: get_osc_prob_maps_def shape_fine get_edges_def f_def [symmetric])
  then show ?thesis
    by (simp add: key_structure_def entry_keys_def self)
qed

lemma entry_keys_fill: "entry_keys (fill_entry p e) = entry_keys e"
  by (cases e) (simp_all add: fill_entry_def entry_keys_def comp_def case_prod_unfold)

lemma keeps_keys_example: "keeps_keys example_hook"
  by (auto simp add: keeps_keys_def example_hook_def key_structure_def entry_keys_fill
        case_prod_unfold comp_def)

lemma init_example:
  "init ''ExampleService'' (Some example_hook) \<lparr>shape = [4], data = [1, 2, 3, 4]\<rparr>
     \<lparr>shape = [3], data = [- 1, 0, 1]\<rparr> = Inr example_service"
  by (simp add: init_def example_service_def)

lemma example_fine_maps:
  "\<exists>fine. get_osc_probLT_dict example_utils example_service None None 2 () = Inr fine \<and>
     key_structure fine = key_structure (fresh_table [] [] []) \<and>
     get_edges fine ''ebins'' = Inr [1, 3 / 2, 2, 5 / 2, 3, 7 / 2, 4] \<and>
     get_edges fine ''czbins'' = Inr [- 1, - 1 / 2, 0, 1 / 2, 1]"
proof -
  have tol: "(0::real) \<le> 1 / 100000" by simp
  have e: "snd (check_oversampling example_utils None (ebins example_service) 2) =
      Inr [1, 3 / 2, 2, 5 / 2, 3, 7 / 2, 4]"
    using fine_e_example [OF tol] by (simp add: example_utils_def example_service_def)
  have cz: "snd (check_oversampling example_utils None (czbins example_service) 2) =
      Inr [- 1, - 1 / 2, 0, 1 / 2, 1]"
    using fine_cz_example [OF tol] by (simp add: example_utils_def example_service_def)
  show ?thesis
    unfolding get_osc_probLT_dict_eq [OF e cz]
    by (simp add: fill_osc_prob_def example_service_def example_hook_def fresh_table_def
          key_structure_def entry_keys_def fill_entry_def get_edges_def)
qed

text \<open>The call on the example service returns a table.\<close>

lemma example_returns: "\<exists>r. get_osc_prob_maps example_utils example_service example_kwargs = Inr r"
proof -
  from example_fine_maps obtain fine where
    f: "get_osc_probLT_dict example_utils example_service None None 2 () = Inr fine"
    and k: "key_structure fine = key_structure (fresh_table [] [] [])"
    and e: "get_edges fine ''ebins'' = Inr [1, 3 / 2, 2, 5 / 2, 3, 7 / 2, 4]"
    and cz: "get_edges fine ''czbins'' = Inr [- 1, - 1 / 2, 0, 1 / 2, 1]"
    by blast
  from k have "key_structure fine =
           [(''ebins'', None), (''czbins'', None),
            (''nue_maps'', Some [''nue'', ''numu'', ''nutau'']),
            (''numu_maps'', Some [''nue'', ''numu'', ''nutau'']),
            (''nue_bar_maps'', Some [''nue_bar'', ''numu_bar'', ''nutau_bar'']),
            (''numu_bar_maps'', Some [''nue_bar'', ''numu_bar'', ''nutau_bar''])]"
    by (simp add: key_structure_fresh)
  from key_structure_inv [OF this] obtain a b x1 x2 x3 y1 y2 y3 z1 z2 z3 w1 w2 w3 where
    "fine = [(''ebins'', Edges a), (''czbins'', Edges b),
         (''nue_maps'', ToMaps [(''nue'', x1), (''numu'', x2), (''nutau'', x3)]),
         (''numu_maps'', ToMaps [(''nue'', y1), (''numu'', y2), (''nutau'', y3)]),
         (''nue_bar_maps'', ToMaps [(''nue_bar'', z1), (''numu_bar'', z2), (''nutau_bar'', z3)]),
         (''numu_bar_maps'', ToMaps [(''nue_bar'', w1), (''numu_bar'', w2), (''nutau_bar'', w3)])]"
    by blast
  with f show ?thesis
    by (simp add: get_osc_prob_maps_def example_kwargs_def get_edges_def)
qed

text \<open>
  C1 on the example service: the call returns, and the returned table has the six keys,
  three destination flavors per family, and the coarse edges of the constructor.
\<close>

theorem get_osc_prob_maps_keys_witness:
  "\<exists>r. get_osc_prob_maps example_utils example_service example_kwargs = Inr r \<and>
       key_structure r =
           [(''ebins'', None), (''czbins'', None),
            (''nue_maps'', Some [''nue'', ''numu'', ''nutau'']),
            (''numu_maps'', Some [''nue'', ''numu'', ''nutau'']),
            (''nue_bar_maps'', Some [''nue_bar'', ''numu_bar'', ''nutau_bar'']),
            (''numu_bar_maps'', Some [''nue_bar'', ''numu_bar'', ''nutau_bar''])] \<and>
       map_of r ''ebins'' = Some (Edges [1, 2, 3, 4]) \<and>
       map_of r ''czbins'' = Some (Edges [- 1, 0, 1])"
proof -
  from example_returns obtain r where
    r: "get_osc_prob_maps example_utils example_service example_kwargs = Inr r" by blast
  from get_osc_prob_maps_keys [OF init_example keeps_keys_example r] r
  show ?thesis by simp
qed

section \<open>The example scenario\<close>

lemma subbinning_example:
  "spec_subbinning [[1, 2, 3, 4], [- 1, 0, 1]]
     [[1, 3 / 2, 2, 5 / 2, 3, 7 / 2, 4], [- 1, - 1 / 2, 0, 1 / 2, 1]] = Some [(2, 0), (2, 0)]"
  by code_simp

lemma rebin_example:
  assumes "shape m = [6, 4]"
  shows "spec_integer_rebin_map m [(2, 0), (2, 0)] =
     \<lparr>shape = [3, 2],
      data = [(cell m 0 0 + cell m 0 1 + cell m 1 0 + cell m 1 1) / 4,
              (cell m 0 2 + cell m 0 3 + cell m 1 2 + cell m 1 3) / 4,
              (cell m 2 0 + cell m 2 1 + cell m 3 0 + cell m 3 1) / 4,
              (cell m 2 2 + cell m 2 3 + cell m 3 2 + cell m 3 3) / 4,
              (cell m 4 0 + cell m 4 1 + cell m 5 0 + cell m 5 1) / 4,
              (cell m 4 2 + cell m 4 3 + cell m 5 2 + cell m 5 3) / 4]\<rparr>"
  using assms by (simp add: spec_integer_rebin_map_def upt_small)

lemma smoothing_func_scenario:
  assumes "0 \<le> tol" and "ebins self = [1, 2, 3, 4]" and "czbins self = [- 1, 0, 1]"
      and "shape m = [6, 4]"
  shows "smoothing_func (spec_utils tol sm) self
           [1, 3 / 2, 2, 5 / 2, 3, 7 / 2, 4] [- 1, - 1 / 2, 0, 1 / 2, 1] m = block_means m"
  using subbinning_example rebin_example [OF assms(4)]
  by (simp add: smoothing_func_def spec_utils_def assms(2,3) block_means_def)

text \<open>
  Claim C7.  With the helpers modelled from the specification (any tolerance \<open>tol \<ge> 0\<close>),
  coarse axes \<open>[1, 2, 3, 4]\<close> and \<open>[-1, 0, 1]\<close>, no explicit fine edges and
  \<^verbatim>\<open>oversample = 2\<close> (given, or by default): the fine energy grid has the 7 edges
  \<open>1, 1.5, \<dots>, 4\<close> (6 bins) and the fine cosine-zenith grid the 5 edges
  \<open>-1, -0.5, \<dots>, 1\<close> (4 bins); the table builder hands the hook the table of these
  edges with zero maps of shape \<open>(6, 4)\<close>; \<^verbatim>\<open>subbinning\<close> finds the factor 2 on both
  axes; and when the hook returns a table \<open>fine\<close> with the same keys, the same edges and
  maps of shape \<open>(6, 4)\<close>, the call of \<^verbatim>\<open>get_osc_prob_maps\<close> returns the coarse
  edges together with, for every family and destination flavor, the map of shape
  \<open>(3, 2)\<close> whose cells are the means of the \<open>2 \<times> 2\<close> blocks of the fine map.
\<close>

theorem example_scenario:
  assumes tol: "0 \<le> tol"
      and axes: "ebins self = [1, 2, 3, 4]" "czbins self = [- 1, 0, 1]"
      and kw: "kw_fine_ebins kw = None" "kw_fine_czbins kw = None"
              "kw_oversample kw = None \<or> kw_oversample kw = Some 2"
      and hook: "fill_override self = Some h"
      and fills: "h (fresh_table [1, 3 / 2, 2, 5 / 2, 3, 7 / 2, 4] [- 1, - 1 / 2, 0, 1 / 2, 1] [6, 4])
                    (get_bin_centers (spec_utils tol sm) [1, 3 / 2, 2, 5 / 2, 3, 7 / 2, 4])
                    (get_bin_centers (spec_utils tol sm) [- 1, - 1 / 2, 0, 1 / 2, 1])
                    (kw_rest kw) = Inr fine"
      and keys: "key_structure fine =
                   key_structure (fresh_table [1, 3 / 2, 2, 5 / 2, 3, 7 / 2, 4]
                                    [- 1, - 1 / 2, 0, 1 / 2, 1] [6, 4])"
      and edges: "get_edges fine ''ebins'' = Inr [1, 3 / 2, 2, 5 / 2, 3, 7 / 2, 4]"
                 "get_edges fine ''czbins'' = Inr [- 1, - 1 / 2, 0, 1 / 2, 1]"
      and shapes: "list_all (\<lambda>m. shape m = [6, 4]) (table_arrays fine)"
  shows "snd (check_oversampling (spec_utils tol sm) None (ebins self) 2) =
           Inr [1, 3 / 2, 2, 5 / 2, 3, 7 / 2, 4] \<and>
         snd (check_oversampling (spec_utils tol sm) None (czbins self) 2) =
           Inr [- 1, - 1 / 2, 0, 1 / 2, 1] \<and>
         get_osc_probLT_dict (spec_utils tol sm) self (kw_fine_ebins kw) (kw_fine_czbins kw)
           (case kw_oversample kw of None \<Rightarrow> 2 | Some k \<Rightarrow> k) (kw_rest kw) = Inr fine \<and>
         subbinning (spec_utils tol sm) [ebins self, czbins self]
           [[1, 3 / 2, 2, 5 / 2, 3, 7 / 2, 4], [- 1, - 1 / 2, 0, 1 / 2, 1]] =
           Some [(2, 0), (2, 0)] \<and>
         get_osc_prob_maps (spec_utils tol sm) self kw =
           Inr ([(''ebins'', Edges [1, 2, 3, 4]), (''czbins'', Edges [- 1, 0, 1])] @
                map (\<lambda>(k, e). (k, block_means_entry e)) (families fine))"
proof -
  let ?u = "spec_utils tol sm"
  let ?fe = "[1, 3 / 2, 2, 5 / 2, 3, 7 / 2, 4] :: real list"
  let ?fcz = "[- 1, - 1 / 2, 0, 1 / 2, 1] :: real list"
  have k2: "(case kw_oversample kw of None \<Rightarrow> 2 | Some k \<Rightarrow> k) = 2"
    using kw(3) by auto
  have e: "snd (check_oversampling ?u None (ebins self) 2) = Inr ?fe"
    using fine_e_example [OF tol] by (simp add: axes)
  have cz: "snd (check_oversampling ?u None (czbins self) 2) = Inr ?fcz"
    using fine_cz_example [OF tol] by (simp add: axes)
  have le: "length (get_bin_centers ?u ?fe) = 6" "length (get_bin_centers ?u ?fcz) = 4"
    by (simp_all add: spec_utils_def spec_get_bin_centers_length)
  have lt: "get_osc_probLT_dict ?u self (kw_fine_ebins kw) (kw_fine_czbins kw)
              (case kw_oversample kw of None \<Rightarrow> 2 | Some k \<Rightarrow> k) (kw_rest kw) = Inr fine"
    unfolding k2 kw(1,2) get_osc_probLT_dict_eq [OF e cz] le
    using fills hook by (simp add: fill_osc_prob_def)
  have sub: "subbinning ?u [ebins self, czbins self] [?fe, ?fcz] = Some [(2, 0), (2, 0)]"
    using subbinning_example by (simp add: axes spec_utils_def)
  from keys have "key_structure fine =
           [(''ebins'', None), (''czbins'', None),
            (''nue_maps'', Some [''nue'', ''numu'', ''nutau'']),
            (''numu_maps'', Some [''nue'', ''numu'', ''nutau'']),
            (''nue_bar_maps'', Some [''nue_bar'', ''numu_bar'', ''nutau_bar'']),
            (''numu_bar_maps'', Some [''nue_bar'', ''numu_bar'', ''nutau_bar''])]"
    by (simp add: key_structure_fresh)
  from key_structure_inv [OF this] obtain a b x1 x2 x3 y1 y2 y3 z1 z2 z3 w1 w2 w3 where
    f: "fine = [(''ebins'', Edges a), (''czbins'', Edges b),
         (''nue_maps'', ToMaps [(''nue'', x1), (''numu'', x2), (''nutau'', x3)]),
         (''numu_maps'', ToMaps [(''nue'', y1), (''numu'', y2), (''nutau'', y3)]),
         (''nue_bar_maps'', ToMaps [(''nue_bar'', z1), (''numu_bar'', z2), (''nutau_bar'', z3)]),
         (''numu_bar_maps'', ToMaps [(''nue_bar'', w1), (''numu_bar'', w2), (''nutau_bar'', w3)])]"
    by blast
  from shapes have sh: "shape x1 = [6, 4]" "shape x2 = [6, 4]" "shape x3 = [6, 4]"
    "shape y1 = [6, 4]" "shape y2 = [6, 4]" "shape y3 = [6, 4]"
    "shape z1 = [6, 4]" "shape z2 = [6, 4]" "shape z3 = [6, 4]"
    "shape w1 = [6, 4]" "shape w2 = [6, 4]" "shape w3 = [6, 4]"
    by (simp_all add: f table_arrays_def)
  note sm = sh [THEN smoothing_func_scenario [OF tol axes, where sm = sm]]
  have "get_osc_prob_maps ?u self kw =
          smooth_families (smoothing_func ?u self ?fe ?fcz) fine
            [(''ebins'', Edges [1, 2, 3, 4]), (''czbins'', Edges [- 1, 0, 1])]"
    by (simp add: get_osc_prob_maps_def lt edges axes)
  with sm have "get_osc_prob_maps ?u self kw =
           Inr ([(''ebins'', Edges [1, 2, 3, 4]), (''czbins'', Edges [- 1, 0, 1])] @
                map (\<lambda>(k, e). (k, block_means_entry e)) (families fine))"
    by (simp add: f families_def block_means_entry_def)
  with e cz lt sub show ?thesis by simp
qed

text \<open>
  C7 on the example service with the hook that stores the map with cell values
  \<open>4 i + j\<close>: the call returns twelve maps with the block means
  \<open>2.5, 4.5, 10.5, 12.5, 18.5, 20.5\<close>.
\<close>

theorem example_scenario_witness:
  "get_osc_prob_maps example_utils (example_service\<lparr>fill_override := Some scenario_hook\<rparr>)
     example_kwargs =
     Inr [(''ebins'', Edges [1, 2, 3, 4]), (''czbins'', Edges [- 1, 0, 1]),
          (''nue_maps'',
             ToMaps [(''nue'', \<lparr>shape = [3, 2], data = [5 / 2, 9 / 2, 21 / 2, 25 / 2, 37 / 2, 41 / 2]\<rparr>),
                     (''numu'', \<lparr>shape = [3, 2], data = [5 / 2, 9 / 2, 21 / 2, 25 / 2, 37 / 2, 41 / 2]\<rparr>),
                     (''nutau'', \<lparr>shape = [3, 2], data = [5 / 2, 9 / 2, 21 / 2, 25 / 2, 37 / 2, 41 / 2]\<rparr>)]),
          (''numu_maps'',
             ToMaps [(''nue'', \<lparr>shape = [3, 2], data = [5 / 2, 9 / 2, 21 / 2, 25 / 2, 37 / 2, 41 / 2]\<rparr>),
                     (''numu'', \<lparr>shape = [3, 2], data = [5 / 2, 9 / 2, 21 / 2, 25 / 2, 37 / 2, 41 / 2]\<rparr>),
                     (''nutau'', \<lparr>shape = [3, 2], data = [5 / 2, 9 / 2, 21 / 2, 25 / 2, 37 / 2, 41 / 2]\<rparr>)]),
          (''nue_bar_maps'',
             ToMaps [(''nue_bar'', \<lparr>shape = [3, 2], data = [5 / 2, 9 / 2, 21 / 2, 25 / 2, 37 / 2, 41 / 2]\<rparr>),
                     (''numu_bar'', \<lparr>shape = [3, 2], data = [5 / 2, 9 / 2, 21 / 2, 25 / 2, 37 / 2, 41 / 2]\<rparr>),
                     (''nutau_bar'', \<lparr>shape = [3, 2], data = [5 / 2, 9 / 2, 21 / 2, 25 / 2, 37 / 2, 41 / 2]\<rparr>)]),
          (''numu_bar_maps'',
             ToMaps [(''nue_bar'', \<lparr>shape = [3, 2], data = [5 / 2, 9 / 2, 21 / 2, 25 / 2, 37 / 2, 41 / 2]\<rparr>),
                     (''numu_bar'', \<lparr>shape = [3, 2], data = [5 / 2, 9 / 2, 21 / 2, 25 / 2, 37 / 2, 41 / 2]\<rparr>),
                     (''nutau_bar'', \<lparr>shape = [3, 2], data = [5 / 2, 9 / 2, 21 / 2, 25 / 2, 37 / 2, 41 / 2]\<rparr>)])]"
proof -
  let ?self = "example_service\<lparr>fill_override := Some scenario_hook\<rparr>"
  let ?fe = "[1, 3 / 2, 2, 5 / 2, 3, 7 / 2, 4] :: real list"
  let ?fcz = "[- 1, - 1 / 2, 0, 1 / 2, 1] :: real list"
  define fine where "fine =
     [(''ebins'', Edges ?fe), (''czbins'', Edges ?fcz),
      (''nue_maps'', ToMaps [(''nue'', example_map), (''numu'', example_map), (''nutau'', example_map)]),
      (''numu_maps'', ToMaps [(''nue'', example_map), (''numu'', example_map), (''nutau'', example_map)]),
      (''nue_bar_maps'',
         ToMaps [(''nue_bar'', example_map), (''numu_bar'', example_map), (''nutau_bar'', example_map)]),
      (''numu_bar_maps'',
         ToMaps [(''nue_bar'', example_map), (''numu_bar'', example_map), (''nutau_bar'', example_map)])]"
  have a: "(0::real) \<le> 1 / 100000" by simp
  have b: "ebins ?self = [1, 2, 3, 4]" "czbins ?self = [- 1, 0, 1]"
    by (simp_all add: example_service_def)
  have c: "kw_fine_ebins example_kwargs = None" "kw_fine_czbins example_kwargs = None"
    "kw_oversample example_kwargs = None \<or> kw_oversample example_kwargs = Some 2"
    by (simp_all add: example_kwargs_def)
  have d: "fill_override ?self = Some scenario_hook" by simp
  have e: "scenario_hook (fresh_table ?fe ?fcz [6, 4])
             (get_bin_centers (spec_utils (1 / 100000) example_smooth) ?fe)
             (get_bin_centers (spec_utils (1 / 100000) example_smooth) ?fcz)
             (kw_rest example_kwargs) = Inr fine"
    by (simp add: scenario_hook_def fresh_table_def fine_def)
  have f: "key_structure fine = key_structure (fresh_table ?fe ?fcz [6, 4])"
    by (simp add: key_structure_fresh) (simp add: fine_def key_structure_def entry_keys_def)
  have g: "get_edges fine ''ebins'' = Inr ?fe" "get_edges fine ''czbins'' = Inr ?fcz"
    by (simp_all add: fine_def get_edges_def)
  have h: "list_all (\<lambda>m. shape m = [6, 4]) (table_arrays fine)"
    by (simp add: fine_def table_arrays_def example_map_def)
  have bm: "block_means example_map =
      \<lparr>shape = [3, 2], data = [5 / 2, 9 / 2, 21 / 2, 25 / 2, 37 / 2, 41 / 2]\<rparr>"
    by (simp add: block_means_def cell_def example_map_def)
  from example_scenario [OF a b c d e f g h]
  show ?thesis
    by (simp add: example_utils_def fine_def families_def block_means_entry_def bm)
qed

section \<open>What a call leaves unchanged\<close>

text \<open>
  The functions on the store refine the pure functions: in every store they return the
  same exception, or a result with the same contents; and they leave every array that
  exists before the call as it is.
\<close>

lemma prefix_nth: "prefix s s' \<Longrightarrow> a < length s \<Longrightarrow> s' ! a = s ! a"
  by (auto simp add: prefix_def nth_append)

lemma prefix_snoc: "prefix s (s @ [x])"
  by simp

lemma prefix_iff_nth:
  "prefix s s' \<longleftrightarrow> length s \<le> length s' \<and> (\<forall>a<length s. s' ! a = s ! a)"
proof
  assume "prefix s s'"
  then show "length s \<le> length s' \<and> (\<forall>a<length s. s' ! a = s ! a)"
    by (auto simp add: prefix_nth prefix_length_le)
next
  assume a: "length s \<le> length s' \<and> (\<forall>a<length s. s' ! a = s ! a)"
  then have "take (length s) s' = s"
    by (intro nth_equalityI) simp_all
  then show "prefix s s'"
    by (metis take_is_prefix)
qed

lemma insert_centers_st_refines:
  assumes "fb < length s"
  shows "\<exists>s' r. insert_centers_st u n s fb = (s', r) \<and> prefix s s' \<and> r < length s' \<and>
           data (s' ! r) = insert_centers u n (data (s ! fb))"
  using assms
proof (induction n arbitrary: s fb)
  case 0
  then show ?case by simp
next
  case (Suc n)
  let ?a = "sort (data (s ! fb) @ get_bin_centers u (data (s ! fb)))"
  let ?s2 = "s @ [arr1 ?a]"
  have step: "insert_centers_st u (Suc n) s fb = insert_centers_st u n ?s2 (length s)"
    by (simp add: alloc_def arr1_def)
  have "length s < length ?s2" by simp
  from Suc.IH [OF this] obtain s' r where
    r: "insert_centers_st u n ?s2 (length s) = (s', r)" "prefix ?s2 s'" "r < length s'"
       "data (s' ! r) = insert_centers u n (data (?s2 ! length s))"
    by blast
  from r(2) have "prefix s s'" by (metis append_prefixD)
  with r step show ?case by (simp add: arr1_def)
qed

lemma check_oversampling_st_refines:
  assumes "c < length s" and "case f of None \<Rightarrow> True | Some a \<Rightarrow> a < length s"
  shows "case snd (check_oversampling u (map_option (\<lambda>a. data (s ! a)) f) (data (s ! c)) k) of
           Inl e \<Rightarrow> check_oversampling_st u s f c k = Inl e
         | Inr g \<Rightarrow>
             (\<exists>s' r. check_oversampling_st u s f c k = Inr (s', r) \<and> prefix s s' \<and>
                      r < length s' \<and> data (s' ! r) = g)"
proof (cases f)
  case (Some a)
  with assms show ?thesis
    by (simp add: check_oversampling_def check_oversampling_st_def)
next
  case None
  from insert_centers_st_refines [OF assms(1), of u "nat (k - 1)"] obtain s' r where
    "insert_centers_st u (nat (k - 1)) s c = (s', r)" "prefix s s'" "r < length s'"
    "data (s' ! r) = insert_centers u (nat (k - 1)) (data (s ! c))"
    by blast
  with None show ?thesis
    by (auto simp add: check_oversampling_def check_oversampling_st_def alloc_def arr1_def
          logspace_def split: sum.splits)
qed

lemma alloc_table_st:
  "alloc_family_st shp ''numu_bar_maps''
     (alloc_family_st shp ''nue_bar_maps''
        (alloc_family_st shp ''numu_maps''
           (alloc_family_st shp ''nue_maps''
              (s, [(''ebins'', EdgesAt fe), (''czbins'', EdgesAt fcz)])))) =
   (s @ replicate 12 (zeros shp), fresh_table_st fe fcz (length s))"
  by (simp add: alloc_family_st_def alloc_def fresh_table_st_def numeral_eq_Suc)

lemma nth_append_replicate:
  "i < n \<Longrightarrow> (s @ replicate n z) ! (length s + i) = z"
  by (simp add: nth_append)

lemma deref_fresh_table_st:
  assumes "fe < length s" and "fcz < length s"
  shows "deref (s @ replicate 12 (zeros shp)) (fresh_table_st fe fcz (length s)) =
           fresh_table (data (s ! fe)) (data (s ! fcz)) shp"
  using assms
  by (simp add: deref_def fresh_table_st_def fresh_table_def deref_entry_def nth_append
        nth_append_replicate)

lemma wf_fresh_table_st:
  assumes "fe < length s" and "fcz < length s"
  shows "wf_table (s @ replicate 12 z) (fresh_table_st fe fcz (length s))"
  using assms by (simp add: wf_table_def table_addrs_def fresh_table_st_def entry_addrs_def)

lemma map_addrs_fresh_table_st:
  "a \<in> set (map_addrs (fresh_table_st fe fcz n)) \<Longrightarrow> n \<le> a"
  by (auto simp add: map_addrs_def entry_maps_def fresh_table_st_def)

lemma separate_fresh_table_st:
  assumes "fe < n" and "fcz < n" and "ecen < n" and "czcen < n"
  shows "separate (fresh_table_st fe fcz n) ecen czcen"
  using assms
  by (simp add: separate_def map_addrs_def edge_addrs_def entry_maps_def entry_edges_def
        fresh_table_st_def)

lemma frame_prefix:
  assumes "frame s5 W s'" and "prefix s s5" and "\<forall>a\<in>set W. length s \<le> a"
  shows "prefix s s'"
proof -
  from assms(1) have len: "length s5 \<le> length s'"
    and fr: "\<forall>a<length s5. a \<in> set W \<or> s' ! a = s5 ! a"
    by (auto simp add: frame_def list_all_iff)
  have "s' ! a = s ! a" if "a < length s" for a
  proof -
    from that assms(2) have "a < length s5" using prefix_length_le by fastforce
    moreover from that assms(3) have "a \<notin> set W" by auto
    ultimately have "s' ! a = s5 ! a" using fr by blast
    with assms(2) that show ?thesis by (simp add: prefix_nth)
  qed
  moreover from assms(2) len have "length s \<le> length s'"
    using prefix_length_le by fastforce
  ultimately show ?thesis by (simp add: prefix_iff_nth)
qed

lemma get_osc_probLT_dict_st_refines:
  assumes e: "st_ebins self < length s" and cz: "st_czbins self < length s"
    and fe: "case fe of None \<Rightarrow> True | Some a \<Rightarrow> a < length s"
    and fcz: "case fcz of None \<Rightarrow> True | Some a \<Rightarrow> a < length s"
    and sr: "service_refines self h"
  shows "case get_osc_probLT_dict u (abs_service s self h) (map_option (\<lambda>a. data (s ! a)) fe)
                (map_option (\<lambda>a. data (s ! a)) fcz) k rest of
           Inl err \<Rightarrow> get_osc_probLT_dict_st u self s fe fcz k rest = Inl err
         | Inr fine \<Rightarrow>
             (\<exists>s' t. get_osc_probLT_dict_st u self s fe fcz k rest = Inr (s', t) \<and>
                      prefix s s' \<and> wf_table s' t \<and> deref s' t = fine)"
proof (cases "snd (check_oversampling u (map_option (\<lambda>a. data (s ! a)) fe) (data (s ! st_ebins self)) k)")
  case (Inl err)
  with check_oversampling_st_refines [OF e fe, of u k]
  show ?thesis
    by (simp add: get_osc_probLT_dict_def get_osc_probLT_dict_st_def abs_service_def)
next
  case (Inr g1)
  with check_oversampling_st_refines [OF e fe, of u k] obtain s1 r1 where
    st1: "check_oversampling_st u s fe (st_ebins self) k = Inr (s1, r1)"
    and p1: "prefix s s1" and r1: "r1 < length s1" and d1: "data (s1 ! r1) = g1"
    by auto
  have len1: "length s \<le> length s1" using p1 by (rule prefix_length_le)
  have cz1: "st_czbins self < length s1" using cz len1 by simp
  have fcz1: "case fcz of None \<Rightarrow> True | Some a \<Rightarrow> a < length s1"
    using fcz len1 by (cases fcz) simp_all
  have same_f: "map_option (\<lambda>a. data (s1 ! a)) fcz = map_option (\<lambda>a. data (s ! a)) fcz"
    using fcz p1 by (cases fcz) (simp_all add: prefix_nth)
  have same_c: "data (s1 ! st_czbins self) = data (s ! st_czbins self)"
    using cz p1 by (simp add: prefix_nth)
  note A2 = check_oversampling_st_refines [OF cz1 fcz1, of u k, unfolded same_f same_c]
  show ?thesis
  proof (cases "snd (check_oversampling u (map_option (\<lambda>a. data (s ! a)) fcz) (data (s ! st_czbins self)) k)")
    case (Inl err)
    with A2 Inr st1 show ?thesis
      by (simp add: get_osc_probLT_dict_def get_osc_probLT_dict_st_def abs_service_def)
  next
    case g2: (Inr g2)
    with A2 obtain s2 r2 where
      st2: "check_oversampling_st u s1 fcz (st_czbins self) k = Inr (s2, r2)"
      and p2: "prefix s1 s2" and r2: "r2 < length s2" and d2: "data (s2 ! r2) = g2"
      by auto
    have len2: "length s1 \<le> length s2" using p2 by (rule prefix_length_le)
    have d1': "data (s2 ! r1) = g1" using d1 r1 p2 by (simp add: prefix_nth)
    define ecen where "ecen = get_bin_centers u g1"
    define czcen where "czcen = get_bin_centers u g2"
    define s4 where "s4 = s2 @ [arr1 ecen] @ [arr1 czcen]"
    define shp where "shp = [length ecen, length czcen]"
    define s5 where "s5 = s4 @ replicate 12 (zeros shp)"
    define T where "T = fresh_table_st r1 r2 (length s4)"
    have r14: "r1 < length s4" and r24: "r2 < length s4"
      using r1 r2 len2 by (simp_all add: s4_def)
    have st: "get_osc_probLT_dict_st u self s fe fcz k rest =
                fill_osc_prob_st self s5 T (length s2) (Suc (length s2)) rest"
      using r2 d1' d2
      by (simp add: get_osc_probLT_dict_st_def st1 st2 alloc_def nth_append arr1_def
            alloc_table_st s4_def s5_def T_def shp_def ecen_def czcen_def)
    have pure: "get_osc_probLT_dict u (abs_service s self h) (map_option (\<lambda>a. data (s ! a)) fe)
                (map_option (\<lambda>a. data (s ! a)) fcz) k rest =
              fill_osc_prob (abs_service s self h) (fresh_table g1 g2 shp) ecen czcen rest"
      using Inr g2
      by (simp add: get_osc_probLT_dict_eq [where fine_e = g1 and fine_cz = g2] abs_service_def
            shp_def ecen_def czcen_def)
    have dT: "deref s5 T = fresh_table g1 g2 shp"
      unfolding s5_def T_def using deref_fresh_table_st [OF r14 r24, of shp] d1' d2 r1 r2 len2
      by (simp add: s4_def nth_append)
    have wT: "wf_table s5 T"
      unfolding s5_def T_def by (rule wf_fresh_table_st [OF r14 r24])
    have ec: "length s2 < length s5" "Suc (length s2) < length s5"
      by (simp_all add: s5_def s4_def)
    have dec: "data (s5 ! length s2) = ecen" "data (s5 ! Suc (length s2)) = czcen"
      by (simp_all add: s5_def s4_def nth_append arr1_def)
    have sep: "separate T (length s2) (Suc (length s2))"
      unfolding T_def using r1 r2 len2
      by (intro separate_fresh_table_st) (simp_all add: s4_def)
    have p5: "prefix s s5"
      using p1 p2 by (auto simp add: s5_def s4_def prefix_def)
    have fresh: "\<forall>a\<in>set (map_addrs T). length s \<le> a"
    proof
      fix a assume "a \<in> set (map_addrs T)"
      then have "length s4 \<le> a" unfolding T_def by (rule map_addrs_fresh_table_st)
      moreover have "length s \<le> length s4" using len1 len2 by (simp add: s4_def)
      ultimately show "length s \<le> a" by simp
    qed
    show ?thesis
    proof (cases "st_fill_override self")
      case None
      then show ?thesis
        unfolding pure st
        by (simp add: fill_osc_prob_def fill_osc_prob_st_def abs_service_def)
    next
      case (Some hst)
      with sr have "hook_refines hst h" by (simp add: service_refines_def)
      then have H: "case h (deref s5 T) (data (s5 ! length s2)) (data (s5 ! Suc (length s2))) rest of
           Inl e \<Rightarrow> hst s5 T (length s2) (Suc (length s2)) rest = Inl e
         | Inr t' \<Rightarrow>
             (\<exists>s' tst. hst s5 T (length s2) (Suc (length s2)) rest = Inr (s', tst) \<and>
                        frame s5 (map_addrs T) s' \<and> wf_table s' tst \<and> deref s' tst = t')"
        using wT ec sep unfolding hook_refines_def by blast
      show ?thesis
      proof (cases "h (fresh_table g1 g2 shp) ecen czcen rest")
        case (Inl err)
        with H Some show ?thesis
          unfolding pure st
          by (simp add: fill_osc_prob_def fill_osc_prob_st_def abs_service_def dT dec)
      next
        case t': (Inr t')
        with H obtain s' tst where
          h: "hst s5 T (length s2) (Suc (length s2)) rest = Inr (s', tst)"
          and fr: "frame s5 (map_addrs T) s'" and w: "wf_table s' tst" and d: "deref s' tst = t'"
          by (auto simp add: dT dec)
        from frame_prefix [OF fr p5 fresh] have "prefix s s'" .
        with h w d t' Some show ?thesis
          unfolding pure st
          by (simp add: fill_osc_prob_def fill_osc_prob_st_def abs_service_def)
      qed
    qed
  qed
qed

lemma map_update_values:
  "map (\<lambda>(k, a). (k, g a)) (AList.update k v al) =
     AList.update k (g v) (map (\<lambda>(k, a). (k, g a)) al)"
  by (induction al) auto

lemma update_values_subset: "snd ` set (AList.update k v al) \<subseteq> insert v (snd ` set al)"
  by (induction al) auto

lemma map_nth_cong_prefix:
  assumes "prefix s s'" and "\<forall>a\<in>snd ` set d. a < length s"
  shows "map (\<lambda>(k, a). (k, s' ! a)) d = map (\<lambda>(k, a). (k, s ! a)) d"
  using assms by (auto simp add: prefix_nth)

lemma smooth_tomaps_st_refines:
  assumes f: "steps_like s1 f fp"
    and "prefix s1 sx"
    and "\<forall>a\<in>snd ` set d. a < length sx"
    and "\<forall>a\<in>snd ` set acc. n0 \<le> a \<and> a < length sx"
    and "n0 \<le> length sx"
  shows "\<exists>s' acc'. smooth_tomaps_st f d (sx, acc) = (s', acc') \<and> prefix sx s' \<and>
           (\<forall>a\<in>snd ` set acc'. n0 \<le> a \<and> a < length s') \<and>
           map (\<lambda>(k, a). (k, s' ! a)) acc' =
             smooth_tomaps fp (map (\<lambda>(k, a). (k, sx ! a)) d) (map (\<lambda>(k, a). (k, sx ! a)) acc)"
  using assms(2-)
proof (induction d arbitrary: sx acc)
  case Nil
  then show ?case by auto
next
  case (Cons p d)
  obtain to_nu m where p: "p = (to_nu, m)" by (cases p)
  let ?sx1 = "sx @ [fp (sx ! m)]"
  let ?acc1 = "AList.update to_nu (length sx) acc"
  from f Cons.prems(1) have fm: "f sx m = (?sx1, length sx)"
    by (simp add: steps_like_def)
  have p1: "prefix s1 ?sx1" using Cons.prems(1) by (metis prefix_order.order_trans prefix_snoc)
  have d1: "\<forall>a\<in>snd ` set d. a < length ?sx1" using Cons.prems(2) by auto
  have a1: "\<forall>a\<in>snd ` set ?acc1. n0 \<le> a \<and> a < length ?sx1"
    using Cons.prems(3,4) update_values_subset [of to_nu "length sx" acc] by fastforce
  have n1: "n0 \<le> length ?sx1" using Cons.prems(4) by simp
  from Cons.IH [OF p1 d1 a1 n1] obtain s' acc' where
    r: "smooth_tomaps_st f d (?sx1, ?acc1) = (s', acc')" "prefix ?sx1 s'"
       "\<forall>a\<in>snd ` set acc'. n0 \<le> a \<and> a < length s'"
       "map (\<lambda>(k, a). (k, s' ! a)) acc' =
          smooth_tomaps fp (map (\<lambda>(k, a). (k, ?sx1 ! a)) d) (map (\<lambda>(k, a). (k, ?sx1 ! a)) ?acc1)"
    by blast
  have px: "prefix sx ?sx1" by simp
  have dd: "\<forall>a\<in>snd ` set d. a < length sx" using Cons.prems(2) by auto
  have aa: "\<forall>a\<in>snd ` set acc. a < length sx" using Cons.prems(3) by auto
  have e1: "map (\<lambda>(k, a). (k, ?sx1 ! a)) d = map (\<lambda>(k, a). (k, sx ! a)) d"
    by (rule map_nth_cong_prefix [OF px dd])
  have e2: "map (\<lambda>(k, a). (k, ?sx1 ! a)) acc = map (\<lambda>(k, a). (k, sx ! a)) acc"
    by (rule map_nth_cong_prefix [OF px aa])
  have e3: "map (\<lambda>(k, a). (k, ?sx1 ! a)) ?acc1 =
              AList.update to_nu (fp (sx ! m)) (map (\<lambda>(k, a). (k, sx ! a)) acc)"
    by (simp add: map_update_values e2)
  have "prefix sx s'" using r(2) by (metis append_prefixD)
  then show ?case
    using r(1,3,4) by (simp add: p fm e1 e3)
qed

lemma wf_table_iff: "wf_table s t \<longleftrightarrow> (\<forall>a\<in>set (table_addrs t). a < length s)"
  by (simp add: wf_table_def list_all_iff)

lemma wf_table_Cons:
  "wf_table s ((k, e) # t) \<longleftrightarrow> (\<forall>a\<in>set (entry_addrs e). a < length s) \<and> wf_table s t"
  by (auto simp add: wf_table_iff table_addrs_def)

lemma wf_table_mono: "wf_table s t \<Longrightarrow> length s \<le> length s' \<Longrightarrow> wf_table s' t"
  by (fastforce simp add: wf_table_iff)

lemma concat_update_subset:
  "set (concat (map (g \<circ> snd) (AList.update k e t))) \<subseteq>
     set (g e) \<union> set (concat (map (g \<circ> snd) t))"
  by (induction t) auto

lemma wf_table_update:
  assumes "wf_table s t" and "\<forall>a\<in>set (entry_addrs e). a < length s"
  shows "wf_table s (AList.update k e t)"
  using assms concat_update_subset [of entry_addrs k e t]
  by (auto simp add: wf_table_iff table_addrs_def)

lemma map_addrs_update:
  "set (map_addrs (AList.update k (ToMapsAt m) t)) \<subseteq> snd ` set m \<union> set (map_addrs t)"
  using concat_update_subset [of entry_maps k "ToMapsAt m" t]
  by (simp add: map_addrs_def entry_maps_def)

lemma deref_entry_prefix:
  assumes "prefix s s'" and "\<forall>a\<in>set (entry_addrs e). a < length s"
  shows "deref_entry s' e = deref_entry s e"
  using assms by (cases e) (auto simp add: deref_entry_def entry_addrs_def prefix_nth)

lemma deref_prefix:
  assumes "prefix s s'" and "wf_table s t"
  shows "deref s' t = deref s t"
  using assms(2)
proof (induction t)
  case Nil
  then show ?case by (simp add: deref_def)
next
  case (Cons p t)
  obtain k e where p: "p = (k, e)" by (cases p)
  with Cons.prems have "\<forall>a\<in>set (entry_addrs e). a < length s" and "wf_table s t"
    by (simp_all add: wf_table_Cons)
  with Cons.IH deref_entry_prefix [OF assms(1)] show ?case
    by (simp add: deref_def p)
qed

lemma deref_update:
  "deref s (AList.update k e t) = AList.update k (deref_entry s e) (deref s t)"
  unfolding deref_def by (induction t) auto

lemma deref_Cons: "deref s ((k, e) # t) = (k, deref_entry s e) # deref s t"
  by (simp add: deref_def)

lemma smooth_families_st_refines:
  assumes f: "steps_like s1 f fp"
    and "prefix s1 sx" and "wf_table sx items" and "wf_table sx acc"
    and "\<forall>a\<in>set (map_addrs acc). n0 \<le> a" and "n0 \<le> length sx"
  shows "case smooth_families fp (deref sx items) (deref sx acc) of
           Inl err \<Rightarrow> smooth_families_st f items (sx, acc) = Inl err
         | Inr r \<Rightarrow>
             (\<exists>s' rst. smooth_families_st f items (sx, acc) = Inr (s', rst) \<and> prefix sx s' \<and>
                        wf_table s' rst \<and> (\<forall>a\<in>set (map_addrs rst). n0 \<le> a) \<and>
                        deref s' rst = r)"
  using assms(2-)
proof (induction items arbitrary: sx acc)
  case Nil
  then show ?case by (simp add: deref_def)
next
  case (Cons p items)
  obtain from_nu e where p: "p = (from_nu, e)" by (cases p)
  from Cons.prems(2) have we: "\<forall>a\<in>set (entry_addrs e). a < length sx" and wi: "wf_table sx items"
    by (simp_all add: p wf_table_Cons)
  show ?case
  proof (cases "str_contains ''bins'' from_nu")
    case True
    with Cons.IH [OF Cons.prems(1) wi Cons.prems(3,4,5)] show ?thesis
      by (simp add: p deref_Cons cong: sum.case_cong)
  next
    case False
    show ?thesis
    proof (cases e)
      case (EdgesAt a)
      with False show ?thesis by (simp add: p deref_Cons deref_entry_def)
    next
      case (ToMapsAt d)
      from we ToMapsAt have wd: "\<forall>a\<in>snd ` set d. a < length sx"
        by (simp add: entry_addrs_def)
      have e0: "\<forall>a\<in>snd ` set ([] :: (string \<times> addr) list). n0 \<le> a \<and> a < length sx" by simp
      from smooth_tomaps_st_refines [OF f Cons.prems(1) wd e0 Cons.prems(5)]
      obtain s2 new where
        inner: "smooth_tomaps_st f d (sx, []) = (s2, new)" and p2: "prefix sx s2"
        and fresh: "\<forall>a\<in>snd ` set new. n0 \<le> a \<and> a < length s2"
        and val: "map (\<lambda>(k, a). (k, s2 ! a)) new =
                    smooth_tomaps fp (map (\<lambda>(k, a). (k, sx ! a)) d) []"
        by auto
      let ?acc1 = "AList.update from_nu (ToMapsAt new) acc"
      have len2: "length sx \<le> length s2" using p2 by (rule prefix_length_le)
      have q1: "prefix s1 s2" using Cons.prems(1) p2 by (rule prefix_order.order_trans)
      have q2: "wf_table s2 items" using wi len2 by (rule wf_table_mono)
      have q3: "wf_table s2 ?acc1"
      proof (rule wf_table_update)
        show "wf_table s2 acc" using Cons.prems(3) len2 by (rule wf_table_mono)
        show "\<forall>a\<in>set (entry_addrs (ToMapsAt new)). a < length s2"
          using fresh by (simp add: entry_addrs_def)
      qed
      have q4: "\<forall>a\<in>set (map_addrs ?acc1). n0 \<le> a"
        using map_addrs_update [of from_nu new acc] fresh Cons.prems(4) by blast
      have q5: "n0 \<le> length s2" using Cons.prems(5) len2 by simp
      have d1: "deref s2 items = deref sx items" using p2 wi by (rule deref_prefix)
      have d2: "deref s2 ?acc1 =
                  AList.update from_nu
                    (ToMaps (smooth_tomaps fp (map (\<lambda>(k, a). (k, sx ! a)) d) [])) (deref sx acc)"
        using deref_prefix [OF p2 Cons.prems(3)] val
        by (simp add: deref_update deref_entry_def)
      from Cons.IH [OF q1 q2 q3 q4 q5, unfolded d1 d2]
      have "case smooth_families fp (deref sx items)
                   (AList.update from_nu
                      (ToMaps (smooth_tomaps fp (map (\<lambda>(k, a). (k, sx ! a)) d) [])) (deref sx acc)) of
              Inl err \<Rightarrow> smooth_families_st f items (s2, ?acc1) = Inl err
            | Inr r \<Rightarrow>
                (\<exists>s' rst. smooth_families_st f items (s2, ?acc1) = Inr (s', rst) \<and> prefix s2 s' \<and>
                           wf_table s' rst \<and> (\<forall>a\<in>set (map_addrs rst). n0 \<le> a) \<and>
                           deref s' rst = r)" .
      moreover have "prefix sx s'" if "prefix s2 s'" for s'
        using p2 that by (rule prefix_order.order_trans)
      ultimately show ?thesis
        using False
        by (auto simp add: p ToMapsAt deref_Cons deref_entry_def inner split: sum.splits)
    qed
  qed
qed

lemma map_of_deref: "map_of (deref s t) k = map_option (deref_entry s) (map_of t k)"
  unfolding deref_def by (induction t) auto

lemma map_of_table_addrs:
  "map_of t k = Some (EdgesAt a) \<Longrightarrow> a \<in> set (table_addrs t)"
  by (force dest: map_of_SomeD simp add: table_addrs_def entry_addrs_def)

lemma get_edges_st_refines:
  "case get_edges (deref s t) k of
     Inl err \<Rightarrow> get_edges_st t k = Inl err
   | Inr g \<Rightarrow> (\<exists>a. get_edges_st t k = Inr a \<and> a \<in> set (table_addrs t) \<and> data (s ! a) = g)"
proof (cases "map_of t k")
  case None
  then show ?thesis by (simp add: get_edges_def get_edges_st_def map_of_deref)
next
  case (Some e)
  then show ?thesis
    by (cases e)
      (simp_all add: get_edges_def get_edges_st_def map_of_deref deref_entry_def map_of_table_addrs)
qed

lemma smoothing_func_st_steps:
  assumes "prefix s s1" and "st_ebins self < length s" and "st_czbins self < length s"
    and "fe < length s1" and "fcz < length s1"
  shows "steps_like s1
           (smoothing_func_st u self
              (subbinning u [data (s1 ! st_ebins self), data (s1 ! st_czbins self)]
                 [data (s1 ! fe), data (s1 ! fcz)]) fe fcz)
           (smoothing_func u (abs_service s self h) (data (s1 ! fe)) (data (s1 ! fcz)))"
proof -
  have len: "length s \<le> length s1" using assms(1) by (rule prefix_length_le)
  have e1: "data (s1 ! st_ebins self) = data (s ! st_ebins self)"
    and c1: "data (s1 ! st_czbins self) = data (s ! st_czbins self)"
    using assms(1,2,3) by (simp_all add: prefix_nth)
  have "smoothing_func_st u self
           (subbinning u [data (s1 ! st_ebins self), data (s1 ! st_czbins self)]
              [data (s1 ! fe), data (s1 ! fcz)]) fe fcz sx m =
        (sx @ [smoothing_func u (abs_service s self h) (data (s1 ! fe)) (data (s1 ! fcz)) (sx ! m)],
         length sx)" if "prefix s1 sx" for sx m
  proof -
    from that assms(4,5) have "data (sx ! fe) = data (s1 ! fe)" "data (sx ! fcz) = data (s1 ! fcz)"
      by (simp_all add: prefix_nth)
    moreover from that assms(2,3) len
    have "data (sx ! st_ebins self) = data (s ! st_ebins self)"
      "data (sx ! st_czbins self) = data (s ! st_czbins self)"
      using e1 c1 by (simp_all add: prefix_nth)
    ultimately show ?thesis
      by (simp add: smoothing_func_st_def smoothing_func_def abs_service_def alloc_def e1 c1
            split: option.splits list.splits)
  qed
  then show ?thesis by (simp add: steps_like_def)
qed

lemma abs_kwargs_simps:
  "kw_fine_ebins (abs_kwargs s kw) = map_option (\<lambda>a. data (s ! a)) (st_fine_ebins kw)"
  "kw_fine_czbins (abs_kwargs s kw) = map_option (\<lambda>a. data (s ! a)) (st_fine_czbins kw)"
  "kw_oversample (abs_kwargs s kw) = st_oversample kw"
  "kw_rest (abs_kwargs s kw) = st_rest kw"
  by (simp_all add: abs_kwargs_def)

lemma get_osc_prob_maps_st_refines:
  assumes vc: "valid_call s self kw" and sr: "service_refines self h"
  shows "case get_osc_prob_maps u (abs_service s self h) (abs_kwargs s kw) of
           Inl err \<Rightarrow> get_osc_prob_maps_st u self s kw = Inl err
         | Inr r \<Rightarrow>
             (\<exists>s' rst sf fine.
                get_osc_prob_maps_st u self s kw = Inr (s', rst) \<and>
                get_osc_probLT_dict_st u self s (st_fine_ebins kw) (st_fine_czbins kw)
                  (case st_oversample kw of None \<Rightarrow> 2 | Some k \<Rightarrow> k) (st_rest kw) = Inr (sf, fine) \<and>
                prefix s sf \<and> prefix sf s' \<and> wf_table s' rst \<and>
                (\<forall>a\<in>set (map_addrs rst). length sf \<le> a) \<and> deref s' rst = r)"
proof -
  let ?k = "case st_oversample kw of None \<Rightarrow> 2 | Some k \<Rightarrow> k"
  from vc have e: "st_ebins self < length s" and cz: "st_czbins self < length s"
    and fe: "case st_fine_ebins kw of None \<Rightarrow> True | Some a \<Rightarrow> a < length s"
    and fcz: "case st_fine_czbins kw of None \<Rightarrow> True | Some a \<Rightarrow> a < length s"
    by (simp_all add: valid_call_def)
  note B = get_osc_probLT_dict_st_refines [OF e cz fe fcz sr, of u ?k "st_rest kw"]
  show ?thesis
  proof (cases "get_osc_probLT_dict u (abs_service s self h)
                  (map_option (\<lambda>a. data (s ! a)) (st_fine_ebins kw))
                  (map_option (\<lambda>a. data (s ! a)) (st_fine_czbins kw)) ?k (st_rest kw)")
    case (Inl err)
    with B show ?thesis
      by (simp add: get_osc_prob_maps_def get_osc_prob_maps_st_def abs_kwargs_simps)
  next
    case (Inr fine)
    with B obtain s1 t where
      st: "get_osc_probLT_dict_st u self s (st_fine_ebins kw) (st_fine_czbins kw) ?k (st_rest kw) =
             Inr (s1, t)"
      and p1: "prefix s s1" and wt: "wf_table s1 t" and dt: "deref s1 t = fine"
      by auto
    have len1: "length s \<le> length s1" using p1 by (rule prefix_length_le)
    let ?acc = "[(''ebins'', EdgesAt (st_ebins self)), (''czbins'', EdgesAt (st_czbins self))]"
    have dacc: "deref s1 ?acc =
        [(''ebins'', Edges (ebins (abs_service s self h))),
         (''czbins'', Edges (czbins (abs_service s self h)))]"
      using e cz p1 by (simp add: deref_def deref_entry_def prefix_nth abs_service_def)
    have pure: "get_osc_prob_maps u (abs_service s self h) (abs_kwargs s kw) =
      (case get_edges fine ''ebins'' of
         Inl err \<Rightarrow> Inl err
       | Inr fine_e \<Rightarrow>
           (case get_edges fine ''czbins'' of
              Inl err \<Rightarrow> Inl err
            | Inr fine_cz \<Rightarrow>
                smooth_families (smoothing_func u (abs_service s self h) fine_e fine_cz) fine
                  (deref s1 ?acc)))"
      unfolding dacc using Inr
      by (simp add: get_osc_prob_maps_def abs_kwargs_simps cong: sum.case_cong)
    have store: "get_osc_prob_maps_st u self s kw =
      (case get_edges_st t ''ebins'' of
         Inl err \<Rightarrow> Inl err
       | Inr fine_e \<Rightarrow>
           (case get_edges_st t ''czbins'' of
              Inl err \<Rightarrow> Inl err
            | Inr fine_cz \<Rightarrow>
                smooth_families_st
                  (smoothing_func_st u self
                     (subbinning u [data (s1 ! st_ebins self), data (s1 ! st_czbins self)]
                        [data (s1 ! fine_e), data (s1 ! fine_cz)]) fine_e fine_cz)
                  t (s1, ?acc)))"
      by (simp add: get_osc_prob_maps_st_def st cong: sum.case_cong)
    note E1 = get_edges_st_refines [where s = s1 and t = t and k = "''ebins''", unfolded dt]
    note E2 = get_edges_st_refines [where s = s1 and t = t and k = "''czbins''", unfolded dt]
    show ?thesis
    proof (cases "get_edges fine ''ebins''")
      case (Inl err)
      with E1 show ?thesis by (simp add: pure store)
    next
      case g1: (Inr g1)
      with E1 obtain a1 where a1: "get_edges_st t ''ebins'' = Inr a1"
        "a1 \<in> set (table_addrs t)" "data (s1 ! a1) = g1" by auto
      show ?thesis
      proof (cases "get_edges fine ''czbins''")
        case (Inl err)
        with E2 g1 a1 show ?thesis by (simp add: pure store)
      next
        case g2: (Inr g2)
        with E2 obtain a2 where a2: "get_edges_st t ''czbins'' = Inr a2"
          "a2 \<in> set (table_addrs t)" "data (s1 ! a2) = g2" by auto
        from a1(2) a2(2) wt have l1: "a1 < length s1" and l2: "a2 < length s1"
          by (simp_all add: wf_table_iff)
        note S = smoothing_func_st_steps [OF p1 e cz l1 l2, where u = u and h = h, unfolded a1(3) a2(3)]
        have wacc: "wf_table s1 ?acc"
          using e cz len1 by (simp add: wf_table_iff table_addrs_def entry_addrs_def)
        have macc: "\<forall>a\<in>set (map_addrs ?acc). length s1 \<le> a"
          by (simp add: map_addrs_def entry_maps_def)
        note C = smooth_families_st_refines [OF S prefix_order.order_refl wt wacc macc order_refl,
            unfolded dt]
        show ?thesis
        proof (cases "smooth_families (smoothing_func u (abs_service s self h) g1 g2) fine
                        (deref s1 ?acc)")
          case (Inl err)
          with C show ?thesis
            by (simp add: pure store g1 g2 a1 a2)
        next
          case (Inr r)
          with C obtain s' rst where
            "smooth_families_st
               (smoothing_func_st u self
                  (subbinning u [data (s1 ! st_ebins self), data (s1 ! st_czbins self)] [g1, g2])
                  a1 a2) t (s1, ?acc) = Inr (s', rst)"
            "prefix s1 s'" "wf_table s' rst" "\<forall>a\<in>set (map_addrs rst). length s1 \<le> a"
            "deref s' rst = r"
            by auto
          with Inr p1 st show ?thesis
            by (simp add: pure store g1 g2 a1 a2)
        qed
      qed
    qed
  qed
qed

lemma entry_maps_subset: "set (entry_maps e) \<subseteq> set (entry_addrs e)"
  by (cases e) (simp_all add: entry_maps_def entry_addrs_def)

lemma map_addrs_subset: "set (map_addrs t) \<subseteq> set (table_addrs t)"
  using entry_maps_subset by (fastforce simp add: map_addrs_def table_addrs_def)

lemma abs_service_prefix:
  assumes "prefix s s1" and "st_ebins self < length s" and "st_czbins self < length s"
  shows "abs_service s1 self h = abs_service s self h"
  using assms by (simp add: abs_service_def prefix_nth)

lemma abs_kwargs_prefix:
  assumes "prefix s s1" and "valid_call s self kw"
  shows "abs_kwargs s1 kw = abs_kwargs s kw"
  using assms
  by (auto simp add: abs_kwargs_def valid_call_def prefix_nth split: option.splits)

lemma valid_call_mono:
  assumes "valid_call s self kw" and "length s \<le> length s1"
  shows "valid_call s1 self kw"
  using assms by (auto simp add: valid_call_def split: option.splits)

text \<open>
  Claim C8.  Consider a call of \<^verbatim>\<open>get_osc_prob_maps\<close> that returns, on an instance
  whose hook refines a pure hook.  Then every array that existed before the call, the two
  axes of the instance and explicit fine edges among them, is unchanged; the store left by
  the table builder is a prefix of the final store, so that resampling has overwritten no
  fine-grid array, and every map of the result is a new array; the contents of the result
  are those computed by the pure model; and a second call with the same arguments returns a
  result with the same contents and leaves the first result as it is.
\<close>

theorem get_osc_prob_maps_no_mutation:
  assumes vc: "valid_call s self kw" and sr: "service_refines self h"
      and call: "get_osc_prob_maps_st u self s kw = Inr (s1, r1)"
  shows "prefix s s1 \<and>
         s1 ! st_ebins self = s ! st_ebins self \<and> s1 ! st_czbins self = s ! st_czbins self \<and>
         (\<exists>sf fine.
            get_osc_probLT_dict_st u self s (st_fine_ebins kw) (st_fine_czbins kw)
              (case st_oversample kw of None \<Rightarrow> 2 | Some k \<Rightarrow> k) (st_rest kw) = Inr (sf, fine) \<and>
            prefix s sf \<and> prefix sf s1 \<and> list_all (\<lambda>a. length sf \<le> a \<and> a < length s1) (map_addrs r1)) \<and>
         get_osc_prob_maps u (abs_service s self h) (abs_kwargs s kw) = Inr (deref s1 r1) \<and>
         (\<exists>s2 r2. get_osc_prob_maps_st u self s1 kw = Inr (s2, r2) \<and>
                   deref s2 r2 = deref s1 r1 \<and> deref s2 r1 = deref s1 r1)"
proof -
  from vc have e: "st_ebins self < length s" and cz: "st_czbins self < length s"
    by (simp_all add: valid_call_def)
  note R = get_osc_prob_maps_st_refines [OF vc sr, of u]
  from R call obtain r sf fine where
    pure: "get_osc_prob_maps u (abs_service s self h) (abs_kwargs s kw) = Inr r"
    and lt: "get_osc_probLT_dict_st u self s (st_fine_ebins kw) (st_fine_czbins kw)
              (case st_oversample kw of None \<Rightarrow> 2 | Some k \<Rightarrow> k) (st_rest kw) = Inr (sf, fine)"
    and p: "prefix s sf" "prefix sf s1" and w: "wf_table s1 r1"
    and fresh: "\<forall>a\<in>set (map_addrs r1). length sf \<le> a" and d: "deref s1 r1 = r"
    by (cases "get_osc_prob_maps u (abs_service s self h) (abs_kwargs s kw)") auto
  have ps: "prefix s s1" using p by (rule prefix_order.order_trans)
  have len: "length s \<le> length s1" using ps by (rule prefix_length_le)
  have new: "list_all (\<lambda>a. length sf \<le> a \<and> a < length s1) (map_addrs r1)"
    using fresh w map_addrs_subset [of r1] by (auto simp add: list_all_iff wf_table_iff)
  have vc1: "valid_call s1 self kw" using vc len by (rule valid_call_mono)
  have same: "abs_service s1 self h = abs_service s self h" "abs_kwargs s1 kw = abs_kwargs s kw"
    using abs_service_prefix [OF ps e cz] abs_kwargs_prefix [OF ps vc] by simp_all
  from get_osc_prob_maps_st_refines [OF vc1 sr, of u] pure obtain s2 r2 where
    second: "get_osc_prob_maps_st u self s1 kw = Inr (s2, r2)" "prefix s1 s2" "deref s2 r2 = r"
    unfolding same using prefix_order.order_trans by auto
  have keep: "deref s2 r1 = deref s1 r1" using second(2) w by (rule deref_prefix)
  from ps e cz lt p new pure d second keep show ?thesis
    by (auto simp add: prefix_nth)
qed

lemma fill_nth:
  assumes "b < length s"
  shows "fold (\<lambda>a s. s[a := fill_array p (s ! a)]) W s ! b =
           (if b \<in> set W then fill_array p (s ! b) else s ! b)"
  using assms
proof (induction W arbitrary: s)
  case Nil
  then show ?case by simp
next
  case (Cons a W)
  let ?s1 = "s[a := fill_array p (s ! a)]"
  have l: "b < length ?s1" using Cons.prems by simp
  have idem: "fill_array p (fill_array p x) = fill_array p x" for x
    by (simp add: fill_array_def)
  show ?case
    using Cons.IH [OF l] Cons.prems
    by (cases "a = b") (simp_all add: idem nth_list_update)
qed

lemma fill_length: "length (fold (\<lambda>a s. s[a := fill_array p (s ! a)]) W s) = length s"
  by (induction W arbitrary: s) simp_all

lemma hook_refines_example: "hook_refines example_hook_st example_hook"
  unfolding hook_refines_def
proof (intro allI impI)
  fix s :: store and t ecen czcen and rest :: unit
  assume a: "wf_table s t \<and> ecen < length s \<and> czcen < length s \<and> separate t ecen czcen"
  let ?W = "map_addrs t"
  let ?s' = "fold (\<lambda>a s. s[a := fill_array (1 / 3) (s ! a)]) ?W s"
  have len: "length ?s' = length s" by (rule fill_length)
  have nth: "?s' ! b = (if b \<in> set ?W then fill_array (1 / 3) (s ! b) else s ! b)"
    if "b < length s" for b
    using that by (rule fill_nth)
  have fr: "frame s ?W ?s'"
    by (auto simp add: frame_def len list_all_iff nth)
  have wf: "wf_table ?s' t" using a by (simp add: wf_table_iff len)
  have ent: "deref_entry ?s' e = fill_entry (1 / 3) (deref_entry s e)" if "(k, e) \<in> set t" for k e
  proof (cases e)
    case (EdgesAt x)
    with that have "x \<in> set (edge_addrs t)"
      by (force simp add: edge_addrs_def entry_edges_def)
    with a have "x \<notin> set ?W" by (simp add: separate_def list_all_iff)
    moreover from that EdgesAt a have "x < length s"
      by (force simp add: wf_table_iff table_addrs_def entry_addrs_def)
    ultimately show ?thesis
      using EdgesAt by (simp add: deref_entry_def fill_entry_def nth)
  next
    case (ToMapsAt m)
    have "?s' ! x = fill_array (1 / 3) (s ! x)" if "(k', x) \<in> set m" for k' x
    proof -
      from that \<open>(k, e) \<in> set t\<close> ToMapsAt have "x \<in> set ?W"
        by (force simp add: map_addrs_def entry_maps_def)
      moreover from this a have "x < length s"
        using map_addrs_subset [of t] by (auto simp add: wf_table_iff)
      ultimately show ?thesis by (simp add: nth)
    qed
    then show ?thesis
      using ToMapsAt
      by (auto simp add: deref_entry_def fill_entry_def fill_array_def)
  qed
  have de: "deref ?s' t = map (\<lambda>(k, e). (k, fill_entry (1 / 3) e)) (deref s t)"
    using ent by (auto simp add: deref_def)
  show "case example_hook (deref s t) (data (s ! ecen)) (data (s ! czcen)) rest of
          Inl e \<Rightarrow> example_hook_st s t ecen czcen rest = Inl e
        | Inr t' \<Rightarrow>
            \<exists>s' tst. example_hook_st s t ecen czcen rest = Inr (s', tst) \<and>
              frame s (map_addrs t) s' \<and> wf_table s' tst \<and> deref s' tst = t'"
    using fr wf de by (simp add: example_hook_def example_hook_st_def)
qed

lemma example_store_abs:
  "abs_service example_store example_service_st example_hook = example_service"
  "abs_kwargs example_store example_kwargs_st = example_kwargs"
  by (simp_all add: abs_service_def abs_kwargs_def example_store_def example_service_st_def
        example_service_def example_kwargs_st_def example_kwargs_def arr1_def)

text \<open>C8 on the example service in a store that holds its two axes.\<close>

theorem get_osc_prob_maps_no_mutation_witness:
  "\<exists>s1 r1.
     get_osc_prob_maps_st example_utils example_service_st example_store example_kwargs_st =
       Inr (s1, r1) \<and>
     prefix example_store s1 \<and>
     s1 ! st_ebins example_service_st = example_store ! st_ebins example_service_st \<and>
     s1 ! st_czbins example_service_st = example_store ! st_czbins example_service_st \<and>
     (\<exists>sf fine.
        get_osc_probLT_dict_st example_utils example_service_st example_store
          (st_fine_ebins example_kwargs_st) (st_fine_czbins example_kwargs_st)
          (case st_oversample example_kwargs_st of None \<Rightarrow> 2 | Some k \<Rightarrow> k)
          (st_rest example_kwargs_st) = Inr (sf, fine) \<and>
        prefix example_store sf \<and> prefix sf s1 \<and>
        list_all (\<lambda>a. length sf \<le> a \<and> a < length s1) (map_addrs r1)) \<and>
     get_osc_prob_maps example_utils example_service example_kwargs = Inr (deref s1 r1) \<and>
     (\<exists>s2 r2.
        get_osc_prob_maps_st example_utils example_service_st s1 example_kwargs_st =
          Inr (s2, r2) \<and>
        deref s2 r2 = deref s1 r1 \<and> deref s2 r1 = deref s1 r1)"
proof -
  have vc: "valid_call example_store example_service_st example_kwargs_st"
    by (simp add: valid_call_def example_store_def example_service_st_def example_kwargs_st_def)
  have sr: "service_refines example_service_st example_hook"
    by (simp add: service_refines_def example_service_st_def hook_refines_example)
  from example_returns obtain r where
    "get_osc_prob_maps example_utils example_service example_kwargs = Inr r" by blast
  with get_osc_prob_maps_st_refines [OF vc sr, of example_utils] obtain s1 r1 where
    call: "get_osc_prob_maps_st example_utils example_service_st example_store example_kwargs_st =
             Inr (s1, r1)"
    by (auto simp add: example_store_abs)
  from get_osc_prob_maps_no_mutation [OF vc sr call, unfolded example_store_abs] call
  show ?thesis by blast
qed

end
